theory Spec2Isabelle
  imports Complex_Main "HOL-Library.List_Lexorder" "HOL-Library.Sublist"
begin

section \<open>Python values\<close>

text \<open>
  A Python \<open>str\<close> is a sequence of Unicode code points, so text is a list of code points
  (natural numbers below \<open>0x110000\<close>); \<open>ascii\<close> reads an ASCII literal. The order on
  lists is the lexicographic one, which is how Python compares two \<open>str\<close>.

  A Python \<open>float\<close> is modelled by the real number it denotes: rounding and overflow
  of IEEE doubles are not part of the model. The three non-finite values only occur as
  results of decoding JSON text.
\<close>

type_synonym pystr = "nat list"

definition ascii :: "string \<Rightarrow> pystr" where
  "ascii s = map of_char s"

definition valid_str :: "pystr \<Rightarrow> bool" where
  "valid_str s = list_all (\<lambda>c. c < 0x110000) s"

text \<open>
  Surrogate code points, and the strings in which no high surrogate is directly followed
  by a low one.
\<close>

definition is_high :: "nat \<Rightarrow> bool" where
  "is_high c = (0xD800 \<le> c \<and> c \<le> 0xDBFF)"

definition is_low :: "nat \<Rightarrow> bool" where
  "is_low c = (0xDC00 \<le> c \<and> c \<le> 0xDFFF)"

fun no_surrogate_pair :: "pystr \<Rightarrow> bool" where
  "no_surrogate_pair (a # b # s) = (\<not> (is_high a \<and> is_low b) \<and> no_surrogate_pair (b # s))"
| "no_surrogate_pair _ = True"

datatype pyfloat = Fin real | PosInf | NegInf | NaN

text \<open>
  The values that reach \<open>deserialize_list\<close>: what a database column holds, what a caller
  passes in memory, and what \<open>json.loads\<close> returns. A dict keeps its pairs in insertion
  order, keys unique.
\<close>

datatype pyval =
    PNone
  | PBool bool
  | PInt int
  | PFloat pyfloat
  | PStr pystr
  | PList "pyval list"
  | PDict "(pystr \<times> pyval) list"

datatype py_error = TypeError | HTTPException nat

section \<open>The JSON codec of the standard library\<close>

subsection \<open>\<open>json.dumps\<close> on a list of strings\<close>

text \<open>
  \<open>serialize_list\<close> calls \<open>json.dumps\<close> with its defaults (\<open>ensure_ascii=True\<close>,
  separators \<open>', '\<close> and \<open>': '\<close>) on a list of \<open>str\<close>. Every character outside
  \<open>' '..'~'\<close>, and the quote and the backslash, is escaped; a code point from
  \<open>0x10000\<close> on is written as a surrogate pair. For \<open>n < 0x100000\<close> the library's
  \<open>0xd800 | ((n >> 10) & 0x3ff)\<close> is \<open>0xD800 + n div 1024 mod 1024\<close> and
  \<open>0xdc00 | (n & 0x3ff)\<close> is \<open>0xDC00 + n mod 1024\<close>.
\<close>

definition hexdigit :: "nat \<Rightarrow> nat" where
  "hexdigit d = (if d < 10 then 0x30 + d else 0x57 + d)"

definition hex4 :: "nat \<Rightarrow> pystr" where
  "hex4 n = [hexdigit (n div 4096 mod 16), hexdigit (n div 256 mod 16),
             hexdigit (n div 16 mod 16), hexdigit (n mod 16)]"

definition escape_char :: "nat \<Rightarrow> pystr" where
  "escape_char c =
     (if c = 0x5C then [0x5C, 0x5C]
      else if c = 0x22 then [0x5C, 0x22]
      else if c = 0x08 then [0x5C, 0x62]
      else if c = 0x0C then [0x5C, 0x66]
      else if c = 0x0A then [0x5C, 0x6E]
      else if c = 0x0D then [0x5C, 0x72]
      else if c = 0x09 then [0x5C, 0x74]
      else if 0x20 \<le> c \<and> c \<le> 0x7E then [c]
      else if c < 0x10000 then [0x5C, 0x75] @ hex4 c
      else (let n = c - 0x10000;
                s1 = 0xD800 + n div 1024 mod 1024;
                s2 = 0xDC00 + n mod 1024
            in [0x5C, 0x75] @ hex4 s1 @ [0x5C, 0x75] @ hex4 s2))"

definition encode_basestring_ascii :: "pystr \<Rightarrow> pystr" where
  "encode_basestring_ascii s = [0x22] @ concat (map escape_char s) @ [0x22]"

fun join_items :: "pystr list \<Rightarrow> pystr" where
  "join_items [] = []"
| "join_items [x] = x"
| "join_items (x # y # ys) = x @ [0x2C, 0x20] @ join_items (y # ys)"

definition json_dumps :: "pystr list \<Rightarrow> pystr" where
  "json_dumps items = [0x5B] @ join_items (map encode_basestring_ascii items) @ [0x5D]"

subsection \<open>\<open>json.loads\<close>\<close>

text \<open>
  The decoder follows \<open>json/decoder.py\<close> and \<open>json/scanner.py\<close>. A position in the
  document is the text that is left from there on; every \<open>JSONDecodeError\<close> is
  \<open>None\<close>, as \<open>deserialize_list\<close> catches them all alike. Limits of the interpreter
  (recursion depth, the length of integer literals) are not modelled.
\<close>

definition json_ws :: "nat \<Rightarrow> bool" where
  "json_ws c = (c = 0x20 \<or> c = 0x09 \<or> c = 0x0A \<or> c = 0x0D)"

definition skip_ws :: "pystr \<Rightarrow> pystr" where
  "skip_ws s = dropWhile json_ws s"

definition starts_with :: "pystr \<Rightarrow> pystr \<Rightarrow> bool" where
  "starts_with s p = (take (length p) s = p)"

definition hexval :: "nat \<Rightarrow> nat option" where
  "hexval c =
     (if 0x30 \<le> c \<and> c \<le> 0x39 then Some (c - 0x30)
      else if 0x61 \<le> c \<and> c \<le> 0x66 then Some (c - 0x57)
      else if 0x41 \<le> c \<and> c \<le> 0x46 then Some (c - 0x37)
      else None)"

fun decode_uXXXX :: "pystr \<Rightarrow> nat option" where
  "decode_uXXXX (a # b # c # d # _) =
     (case hexval a of None \<Rightarrow> None | Some w \<Rightarrow>
      case hexval b of None \<Rightarrow> None | Some x \<Rightarrow>
      case hexval c of None \<Rightarrow> None | Some y \<Rightarrow>
      case hexval d of None \<Rightarrow> None | Some z \<Rightarrow>
        Some (((w * 16 + x) * 16 + y) * 16 + z))"
| "decode_uXXXX _ = None"

definition BACKSLASH :: "nat \<Rightarrow> nat option" where
  "BACKSLASH e =
     (if e = 0x22 then Some 0x22
      else if e = 0x5C then Some 0x5C
      else if e = 0x2F then Some 0x2F
      else if e = 0x62 then Some 0x08
      else if e = 0x66 then Some 0x0C
      else if e = 0x6E then Some 0x0A
      else if e = 0x72 then Some 0x0D
      else if e = 0x74 then Some 0x09
      else None)"

definition push_char :: "nat \<Rightarrow> (pystr \<times> pystr) option \<Rightarrow> (pystr \<times> pystr) option" where
  "push_char c r = (case r of None \<Rightarrow> None | Some (chunks, rest) \<Rightarrow> Some (c # chunks, rest))"

text \<open>
  \<open>scanstring\<close> starts after the opening quote and returns the decoded string with the
  text after the closing quote. In strict mode a literal control character is an error.
  A \<open>\u\<close> escape of a high surrogate that is followed by a \<open>\u\<close> escape of a low
  surrogate is one code point.
\<close>

fun scanstring :: "pystr \<Rightarrow> (pystr \<times> pystr) option" where
  "scanstring [] = None"
| "scanstring (c # s) =
     (if c = 0x22 then Some ([], s)
      else if c = 0x5C then
        (case s of
           [] \<Rightarrow> None
         | esc # s1 \<Rightarrow>
             if esc \<noteq> 0x75 then
               (case BACKSLASH esc of
                  None \<Rightarrow> None
                | Some ch \<Rightarrow> push_char ch (scanstring s1))
             else
               (case decode_uXXXX s1 of
                  None \<Rightarrow> None
                | Some uni \<Rightarrow>
                    if 0xD800 \<le> uni \<and> uni \<le> 0xDBFF \<and> take 2 (drop 4 s1) = [0x5C, 0x75] then
                      (case decode_uXXXX (drop 6 s1) of
                         None \<Rightarrow> None
                       | Some uni2 \<Rightarrow>
                           if 0xDC00 \<le> uni2 \<and> uni2 \<le> 0xDFFF then
                             push_char (0x10000 + ((uni - 0xD800) * 1024 + (uni2 - 0xDC00)))
                               (scanstring (drop 10 s1))
                           else push_char uni (scanstring (drop 4 s1)))
                    else push_char uni (scanstring (drop 4 s1))))
      else if c < 0x20 then None
      else push_char c (scanstring s))"

text \<open>
  A number is \<open>-?(0|[1-9]\d*)(\.\d+)?([eE][-+]?\d+)?\<close>: an \<open>int\<close> when it has neither
  fraction nor exponent, a \<open>float\<close> otherwise.
\<close>

definition is_digit :: "nat \<Rightarrow> bool" where
  "is_digit c = (0x30 \<le> c \<and> c \<le> 0x39)"

definition digits_val :: "pystr \<Rightarrow> nat" where
  "digits_val ds = foldl (\<lambda>acc c. acc * 10 + (c - 0x30)) 0 ds"

definition match_sign :: "pystr \<Rightarrow> bool \<times> pystr" where
  "match_sign s = (case s of [] \<Rightarrow> (False, s) | c # t \<Rightarrow> if c = 0x2D then (True, t) else (False, s))"

definition match_frac :: "pystr \<Rightarrow> pystr \<times> pystr" where
  "match_frac s =
     (case s of
        [] \<Rightarrow> ([], s)
      | c # t \<Rightarrow>
          if c = 0x2E \<and> takeWhile is_digit t \<noteq> []
          then (takeWhile is_digit t, dropWhile is_digit t) else ([], s))"

definition match_exp :: "pystr \<Rightarrow> int option \<times> pystr" where
  "match_exp s =
     (case s of
        [] \<Rightarrow> (None, s)
      | c # t \<Rightarrow>
          if c = 0x65 \<or> c = 0x45 then
            (let (neg, u) = (case t of [] \<Rightarrow> (False, t)
                             | g # w \<Rightarrow> if g = 0x2D then (True, w)
                                       else if g = 0x2B then (False, w) else (False, t))
             in if takeWhile is_digit u \<noteq> []
                then (Some ((if neg then - 1 else 1) * int (digits_val (takeWhile is_digit u))),
                      dropWhile is_digit u)
                else (None, s))
          else (None, s))"

definition scale10 :: "real \<Rightarrow> int \<Rightarrow> real" where
  "scale10 x e = (if 0 \<le> e then x * 10 ^ nat e else x / 10 ^ nat (- e))"

definition match_number :: "pystr \<Rightarrow> (pyval \<times> pystr) option" where
  "match_number s =
     (let (neg, s1) = match_sign s in
      case s1 of
        [] \<Rightarrow> None
      | d # t \<Rightarrow>
          if \<not> is_digit d then None
          else
            (let (ds, s2) = (if d = 0x30 then ([d], t)
                             else (d # takeWhile is_digit t, dropWhile is_digit t));
                 (fr, s3) = match_frac s2;
                 (ex, s4) = match_exp s3
             in if fr = [] \<and> ex = None
                then Some (PInt ((if neg then - 1 else 1) * int (digits_val ds)), s4)
                else Some (PFloat (Fin ((if neg then - 1 else 1) *
                       scale10 (real (digits_val ds) + real (digits_val fr) / 10 ^ length fr)
                         (case ex of None \<Rightarrow> 0 | Some e \<Rightarrow> e))), s4)))"

text \<open>\<open>dict(pairs)\<close>: a later pair with a key already present replaces its value.\<close>

fun dict_set :: "(pystr \<times> pyval) list \<Rightarrow> pystr \<Rightarrow> pyval \<Rightarrow> (pystr \<times> pyval) list" where
  "dict_set [] k v = [(k, v)]"
| "dict_set ((k', v') # kvs) k v =
     (if k' = k then (k, v) # kvs else (k', v') # dict_set kvs k v)"

definition dict_of_pairs :: "(pystr \<times> pyval) list \<Rightarrow> (pystr \<times> pyval) list" where
  "dict_of_pairs pairs = foldl (\<lambda>d (k, v). dict_set d k v) [] pairs"

lemma push_char_shorter:
  "push_char c r = Some (x, rest) \<Longrightarrow> \<exists>y. r = Some (y, rest)"
  by (auto simp: push_char_def split: option.splits)

lemma scanstring_shorter: "scanstring s = Some (x, rest) \<Longrightarrow> length rest < length s"
proof (induction "length s" arbitrary: s x rest rule: less_induct)
  case less
  from less.prems obtain c t where s: "s = c # t"
    by (cases s) auto
  have IH: "scanstring u = Some (y, r) \<Longrightarrow> length u < Suc (length t) \<Longrightarrow> length r < length u"
    for u y r
    using less.hyps [of u y r] s by simp
  from less.prems show ?case
    unfolding s
    apply (simp split: if_splits list.splits option.splits)
          apply (auto dest!: push_char_shorter)
          apply (drule IH, simp, simp)+
    done
qed

lemma skip_ws_length: "length (skip_ws t) \<le> length t"
  by (simp add: skip_ws_def length_dropWhile_le)

lemma skip_ws_Cons_shorter: "skip_ws t = d # u \<Longrightarrow> length u < length t"
  using skip_ws_length [of t] by simp

text \<open>
  \<open>scan_once\<close> reads one JSON value; the two loops are the \<open>while True\<close> loops of
  \<open>JSONArray\<close> and \<open>JSONObject\<close>, whose preludes are the branches for \<open>[\<close> and
  \<open>{\<close>. The library's fast paths around whitespace all amount to skipping it. The
  loops go on only when the value just read took some text; \<open>scan_once_shorter\<close> below
  shows that it always does, so this test never fails and only serves termination.
\<close>

function scan_once :: "pystr \<Rightarrow> (pyval \<times> pystr) option"
  and JSONArray_loop :: "pyval list \<Rightarrow> pystr \<Rightarrow> (pyval \<times> pystr) option"
  and JSONObject_loop :: "(pystr \<times> pyval) list \<Rightarrow> pystr \<Rightarrow> (pyval \<times> pystr) option"
where
  "scan_once [] = None"
| "scan_once (c # t) =
     (if c = 0x22 then
        (case scanstring t of None \<Rightarrow> None | Some (x, r) \<Rightarrow> Some (PStr x, r))
      else if c = 0x7B then
        (case skip_ws t of
           [] \<Rightarrow> None
         | d # u \<Rightarrow>
             if d = 0x7D then Some (PDict [], u)
             else if d = 0x22 then JSONObject_loop [] u
             else None)
      else if c = 0x5B then
        (case skip_ws t of
           [] \<Rightarrow> None
         | d # u \<Rightarrow>
             if d = 0x5D then Some (PList [], u)
             else JSONArray_loop [] (d # u))
      else if starts_with (c # t) (ascii ''null'') then Some (PNone, drop 3 t)
      else if starts_with (c # t) (ascii ''true'') then Some (PBool True, drop 3 t)
      else if starts_with (c # t) (ascii ''false'') then Some (PBool False, drop 4 t)
      else
        (case match_number (c # t) of
           Some res \<Rightarrow> Some res
         | None \<Rightarrow>
             if starts_with (c # t) (ascii ''NaN'') then Some (PFloat NaN, drop 2 t)
             else if starts_with (c # t) (ascii ''Infinity'') then Some (PFloat PosInf, drop 7 t)
             else if starts_with (c # t) (ascii ''-Infinity'') then Some (PFloat NegInf, drop 8 t)
             else None))"
| "JSONArray_loop vals s =
     (case scan_once s of
        None \<Rightarrow> None
      | Some (v, r) \<Rightarrow>
          if length r < length s then
            (case skip_ws r of
               [] \<Rightarrow> None
             | d # u \<Rightarrow>
                 if d = 0x5D then Some (PList (vals @ [v]), u)
                 else if d \<noteq> 0x2C then None
                 else JSONArray_loop (vals @ [v]) (skip_ws u))
          else None)"
| "JSONObject_loop pairs s =
     (case scanstring s of
        None \<Rightarrow> None
      | Some (key, r) \<Rightarrow>
          (case skip_ws r of
             [] \<Rightarrow> None
           | c # r2 \<Rightarrow>
               if c \<noteq> 0x3A then None
               else
                 (case scan_once (skip_ws r2) of
                    None \<Rightarrow> None
                  | Some (v, r4) \<Rightarrow>
                      if length r4 < length (skip_ws r2) then
                        (case skip_ws r4 of
                           [] \<Rightarrow> None
                         | d # r6 \<Rightarrow>
                             if d = 0x7D then Some (PDict (dict_of_pairs (pairs @ [(key, v)])), r6)
                             else if d \<noteq> 0x2C then None
                             else
                               (case skip_ws r6 of
                                  [] \<Rightarrow> None
                                | e # r8 \<Rightarrow>
                                    if e \<noteq> 0x22 then None
                                    else JSONObject_loop (pairs @ [(key, v)]) r8))
                      else None)))"
  by pat_completeness auto
termination
  apply (relation "measures
    [\<lambda>x. case x of Inl s \<Rightarrow> length s | Inr (Inl (_, s)) \<Rightarrow> length s | Inr (Inr (_, s)) \<Rightarrow> length s,
     \<lambda>x. case x of Inl _ \<Rightarrow> 0 | Inr _ \<Rightarrow> Suc 0]")
  subgoal by simp
  subgoal by (auto dest: skip_ws_Cons_shorter)
  subgoal by (auto dest: skip_ws_Cons_shorter)
  subgoal by simp
  subgoal for vals s x2 x y d u
    using skip_ws_length [of u] by (auto dest!: skip_ws_Cons_shorter)
  subgoal for pairs s x2 x y c r2
    using skip_ws_length [of r2] by (auto dest!: skip_ws_Cons_shorter scanstring_shorter)
  subgoal for pairs s x2 x y c r2
    using skip_ws_length [of r2] by (auto dest!: skip_ws_Cons_shorter scanstring_shorter)
  done

declare JSONArray_loop.simps [simp del] JSONObject_loop.simps [simp del]

text \<open>Every value that is read takes at least one character.\<close>

lemma match_sign_length: "match_sign s = (neg, s1) \<Longrightarrow> length s1 \<le> length s"
  by (auto simp: match_sign_def split: list.splits if_splits)

lemma match_frac_length: "match_frac s = (fr, s1) \<Longrightarrow> length s1 \<le> length s"
  using length_dropWhile_le [of is_digit "tl s"]
  by (auto simp: match_frac_def split: list.splits if_splits)

lemma match_exp_length:
  assumes "match_exp s = (ex, s1)"
  shows "length s1 \<le> length s"
proof (cases s)
  case Nil
  with assms show ?thesis by (simp add: match_exp_def)
next
  case (Cons c t)
  have "length (dropWhile is_digit t) \<le> length t"
    by (rule length_dropWhile_le)
  moreover have "length (dropWhile is_digit (tl t)) \<le> length t"
    using length_dropWhile_le [of is_digit "tl t"] by (cases t) auto
  ultimately show ?thesis
    using assms unfolding Cons
    by (auto simp: match_exp_def Let_def split: list.splits if_splits prod.splits)
qed

lemma match_number_shorter:
  assumes "match_number s = Some (v, r)"
  shows "length r < length s"
proof -
  obtain neg s1 where s1: "match_sign s = (neg, s1)"
    by (cases "match_sign s")
  from assms s1 obtain d t where dt: "s1 = d # t"
    by (cases s1) (auto simp: match_number_def)
  define s2 where "s2 = (if d = 0x30 then t else dropWhile is_digit t)"
  obtain fr s3 where s3: "match_frac s2 = (fr, s3)"
    by (cases "match_frac s2")
  obtain ex s4 where s4: "match_exp s3 = (ex, s4)"
    by (cases "match_exp s3")
  from assms s1 dt s3 s4 have "r = s4"
    by (auto simp: match_number_def s2_def Let_def split: if_splits)
  moreover have "length s2 \<le> length t"
    by (simp add: s2_def length_dropWhile_le)
  ultimately show ?thesis
    using match_sign_length [OF s1] match_frac_length [OF s3] match_exp_length [OF s4] dt
    by simp
qed

lemma scan_once_shorter_aux:
  "(\<forall>v r. scan_once s = Some (v, r) \<longrightarrow> length r < length s)"
  "(\<forall>v r. JSONArray_loop vals s' = Some (v, r) \<longrightarrow> length r < length s')"
  "(\<forall>v r. JSONObject_loop pairs s'' = Some (v, r) \<longrightarrow> length r < length s'')"
proof (induction s and vals s' and pairs s'' rule: scan_once_JSONArray_loop_JSONObject_loop.induct)
  case 1
  then show ?case by simp
next
  case (2 c t)
  show ?case
  proof (intro allI impI)
    fix v r
    assume a: "scan_once (c # t) = Some (v, r)"
    consider (str) "c = 0x22" | (obj) "c \<noteq> 0x22" "c = 0x7B" | (arr) "c \<noteq> 0x22" "c \<noteq> 0x7B" "c = 0x5B"
      | (other) "c \<noteq> 0x22" "c \<noteq> 0x7B" "c \<noteq> 0x5B"
      by blast
    then show "length r < length (c # t)"
    proof cases
      case str
      with a show ?thesis
        by (auto split: option.splits dest: scanstring_shorter)
    next
      case obj
      with a obtain d u where du: "skip_ws t = d # u"
        by (cases "skip_ws t") auto
      from skip_ws_Cons_shorter [OF du] have u: "length u < length t" .
      show ?thesis
      proof (cases "d = 0x7D")
        case True
        with a obj du u show ?thesis by auto
      next
        case False
        with a obj du have d: "d = 0x22" and l: "JSONObject_loop [] u = Some (v, r)"
          by (auto split: if_splits)
        from "2.IH"(1) [OF obj du False d] l u show ?thesis by auto
      qed
    next
      case arr
      with a obtain d u where du: "skip_ws t = d # u"
        by (cases "skip_ws t") auto
      from skip_ws_length [of t] du have u: "length (d # u) \<le> length t" by simp
      show ?thesis
      proof (cases "d = 0x5D")
        case True
        with a arr du u show ?thesis by auto
      next
        case False
        with a arr du have l: "JSONArray_loop [] (d # u) = Some (v, r)"
          by auto
        from "2.IH"(2) [OF arr du False] l u show ?thesis by auto
      qed
    next
      case other
      with a show ?thesis
        by (auto split: if_splits option.splits dest: match_number_shorter)
    qed
  qed
next
  case (3 vals s)
  show ?case
  proof (intro allI impI)
    fix v r
    assume a: "JSONArray_loop vals s = Some (v, r)"
    then obtain x r1 where x: "scan_once s = Some (x, r1)"
      by (subst (asm) JSONArray_loop.simps) (auto split: option.splits)
    with a have r1: "length r1 < length s"
      by (subst (asm) JSONArray_loop.simps) (auto split: if_splits)
    from a x r1 obtain d u where du: "skip_ws r1 = d # u"
      by (subst (asm) JSONArray_loop.simps) (auto split: list.splits)
    from skip_ws_Cons_shorter [OF du] have u: "length u < length r1" .
    show "length r < length s"
    proof (cases "d = 0x5D")
      case True
      with a x r1 du have "r = u"
        by (subst (asm) JSONArray_loop.simps) auto
      with u r1 show ?thesis by simp
    next
      case False
      with a x r1 du have c: "\<not> d \<noteq> 0x2C" and l: "JSONArray_loop (vals @ [x]) (skip_ws u) = Some (v, r)"
        by (subst (asm) JSONArray_loop.simps; auto split: if_splits)+
      from "3.IH"(2) [OF x refl r1 du False c] l have "length r < length (skip_ws u)"
        by blast
      with skip_ws_length [of u] u r1 show ?thesis by simp
    qed
  qed
next
  case (4 pairs s)
  show ?case
  proof (intro allI impI)
    fix v r
    assume a: "JSONObject_loop pairs s = Some (v, r)"
    then obtain key r1 where k: "scanstring s = Some (key, r1)"
      by (subst (asm) JSONObject_loop.simps) (auto split: option.splits)
    from scanstring_shorter [OF k] have r1: "length r1 < length s" .
    from a k obtain c r2 where c: "skip_ws r1 = c # r2"
      by (subst (asm) JSONObject_loop.simps) (auto split: list.splits)
    from skip_ws_Cons_shorter [OF c] have r2: "length r2 < length r1" .
    from a k c have colon: "\<not> c \<noteq> 0x3A"
      by (subst (asm) JSONObject_loop.simps) (auto split: if_splits)
    from a k c colon obtain x r4 where x: "scan_once (skip_ws r2) = Some (x, r4)"
      by (subst (asm) JSONObject_loop.simps) (auto split: option.splits)
    from a k c colon x have r4: "length r4 < length (skip_ws r2)"
      by (subst (asm) JSONObject_loop.simps) (auto split: if_splits)
    from a k c colon x r4 obtain d r6 where d: "skip_ws r4 = d # r6"
      by (subst (asm) JSONObject_loop.simps) (auto split: list.splits)
    from skip_ws_Cons_shorter [OF d] have r6: "length r6 < length r4" .
    have chain: "length r6 < length s"
      using r6 r4 skip_ws_length [of r2] r2 r1 by simp
    show "length r < length s"
    proof (cases "d = 0x7D")
      case True
      with a k c colon x r4 d have "r = r6"
        by (subst (asm) JSONObject_loop.simps) auto
      with chain show ?thesis by simp
    next
      case False
      with a k c colon x r4 d have comma: "\<not> d \<noteq> 0x2C"
        by (subst (asm) JSONObject_loop.simps) (auto split: if_splits)
      from a k c colon x r4 d False comma obtain e r8 where e: "skip_ws r6 = e # r8"
        by (subst (asm) JSONObject_loop.simps) (auto split: list.splits)
      from skip_ws_Cons_shorter [OF e] have r8: "length r8 < length r6" .
      from a k c colon x r4 d False comma e have q: "\<not> e \<noteq> 0x22"
        and l: "JSONObject_loop (pairs @ [(key, x)]) r8 = Some (v, r)"
        by (subst (asm) JSONObject_loop.simps; auto split: if_splits)+
      from "4.IH"(2) [OF k refl c colon x refl r4 d False comma e q] l
      have "length r < length r8" by blast
      with r8 chain show ?thesis by simp
    qed
  qed
qed

lemma scan_once_shorter: "scan_once s = Some (v, r) \<Longrightarrow> length r < length s"
  using scan_once_shorter_aux(1) by blast

text \<open>So the two loops are the loops of the library, without the test.\<close>

lemma JSONArray_loop_unfold:
  "JSONArray_loop vals s =
     (case scan_once s of
        None \<Rightarrow> None
      | Some (v, r) \<Rightarrow>
          (case skip_ws r of
             [] \<Rightarrow> None
           | d # u \<Rightarrow>
               if d = 0x5D then Some (PList (vals @ [v]), u)
               else if d \<noteq> 0x2C then None
               else JSONArray_loop (vals @ [v]) (skip_ws u)))"
  by (subst JSONArray_loop.simps) (auto split: option.splits dest: scan_once_shorter)

lemma JSONObject_loop_unfold:
  "JSONObject_loop pairs s =
     (case scanstring s of
        None \<Rightarrow> None
      | Some (key, r) \<Rightarrow>
          (case skip_ws r of
             [] \<Rightarrow> None
           | c # r2 \<Rightarrow>
               if c \<noteq> 0x3A then None
               else
                 (case scan_once (skip_ws r2) of
                    None \<Rightarrow> None
                  | Some (v, r4) \<Rightarrow>
                      (case skip_ws r4 of
                         [] \<Rightarrow> None
                       | d # r6 \<Rightarrow>
                           if d = 0x7D then Some (PDict (dict_of_pairs (pairs @ [(key, v)])), r6)
                           else if d \<noteq> 0x2C then None
                           else
                             (case skip_ws r6 of
                                [] \<Rightarrow> None
                              | e # r8 \<Rightarrow>
                                  if e \<noteq> 0x22 then None
                                  else JSONObject_loop (pairs @ [(key, v)]) r8)))))"
  by (subst JSONObject_loop.simps) (auto split: option.splits list.splits dest: scan_once_shorter)

text \<open>\<open>JSONDecoder.decode\<close>: one value between optional whitespace, and nothing after it.\<close>

definition json_loads :: "pystr \<Rightarrow> pyval option" where
  "json_loads s =
     (case scan_once (skip_ws s) of
        None \<Rightarrow> None
      | Some (obj, r) \<Rightarrow> if skip_ws r = [] then Some obj else None)"

section \<open>The list codec of the service\<close>

text \<open>
  \<open>serialize_list\<close> is what the persistence layer writes for a list-valued designer
  attribute; its argument is typed \<open>List[str]\<close>, with \<open>None\<close> written as the empty list.
\<close>

definition serialize_list :: "pystr list option \<Rightarrow> pystr" where
  "serialize_list items = (case items of Some xs \<Rightarrow> json_dumps xs | None \<Rightarrow> json_dumps [])"

text \<open>\<open>str.strip()\<close> removes the code points for which \<open>str.isspace()\<close> holds.\<close>

definition py_isspace :: "nat \<Rightarrow> bool" where
  "py_isspace c =
     ((0x09 \<le> c \<and> c \<le> 0x0D) \<or> (0x1C \<le> c \<and> c \<le> 0x20) \<or> c = 0x85 \<or> c = 0xA0 \<or>
      c = 0x1680 \<or> (0x2000 \<le> c \<and> c \<le> 0x200A) \<or> c = 0x2028 \<or> c = 0x2029 \<or>
      c = 0x202F \<or> c = 0x205F \<or> c = 0x3000)"

definition strip :: "pystr \<Rightarrow> pystr" where
  "strip s = rev (dropWhile py_isspace (rev (dropWhile py_isspace s)))"

text \<open>
  \<open>deserialize_list\<close>, branch by branch: \<open>None\<close>, a list (returned as it is), a
  \<open>str\<close> (stripped, then decoded, with every exception of the decoder turned into the
  empty list), anything else. What \<open>json.loads\<close> returns is returned unchecked.
\<close>

fun deserialize_list :: "pyval \<Rightarrow> pyval" where
  "deserialize_list PNone = PList []"
| "deserialize_list (PList xs) = PList xs"
| "deserialize_list (PStr data) =
     (let data = strip data in
      if data = [] then PList []
      else (case json_loads data of Some v \<Rightarrow> v | None \<Rightarrow> PList []))"
| "deserialize_list _ = PList []"

text \<open>A native sequence of strings, as a value.\<close>

definition str_list :: "pystr list \<Rightarrow> pyval" where
  "str_list xs = PList (map PStr xs)"

definition is_str_list :: "pyval \<Rightarrow> bool" where
  "is_str_list v =
     (case v of
        PList xs \<Rightarrow> list_all (\<lambda>x. case x of PStr _ \<Rightarrow> True | _ \<Rightarrow> False) xs
      | _ \<Rightarrow> False)"

section \<open>Records\<close>

text \<open>
  A campaign and a designer are rows of the two tables, read as dicts with every column
  present. A field the scorer tests against \<open>None\<close> (or for truthiness) is optional,
  \<open>None\<close> being SQL \<open>NULL\<close>; \<open>budget\<close> is compared without such a test. The three
  list-valued fields hold whatever the column or the caller holds. \<open>submitted_at\<close> is
  not read by any function modelled here.
\<close>

record campaign =
  campaign_id :: int
  budget :: real
  ambiance :: "pystr option"
  platform_pref :: "pystr option"
  interactivity :: "int option"
  style :: "pystr option"
  timeline :: "pystr option"

record designer =
  designer_id :: int
  name :: pystr
  rate_tier :: "real option"
  scene_tags :: pyval
  export_formats :: pyval
  game_logic_experience :: "int option"
  visual_metadata :: pyval
  availability :: "pystr option"
  performance_score :: "real option"

record scored_designer =
  sd_designer :: designer
  sd_score :: real

record match_request =
  mr_campaign_id :: int
  threshold :: real

record database =
  campaigns :: "campaign list"
  designers :: "designer list"

section \<open>Matching logic\<close>

text \<open>
  Python's \<open>x in c\<close> for a \<open>str\<close> \<open>x\<close>: membership by \<open>==\<close> in a list (a \<open>str\<close> equals
  only an equal \<open>str\<close>), substring in a \<open>str\<close>, key in a dict, and \<open>TypeError\<close> for
  \<open>None\<close>, a bool or a number.
\<close>

fun py_in :: "pystr \<Rightarrow> pyval \<Rightarrow> py_error + bool" where
  "py_in x (PList vs) = Inr (PStr x \<in> set vs)"
| "py_in x (PStr t) = Inr (sublist x t)"
| "py_in x (PDict kvs) = Inr (x \<in> fst ` set kvs)"
| "py_in x _ = Inl TypeError"

text \<open>\<open>campaign.get(k) and campaign[k] in tags\<close>: the membership is only evaluated for a
  non-empty wanted tag.\<close>

definition wanted_in :: "pystr option \<Rightarrow> pyval \<Rightarrow> py_error + bool" where
  "wanted_in wanted tags =
     (case wanted of
        None \<Rightarrow> Inr False
      | Some x \<Rightarrow> if x = [] then Inr False else py_in x tags)"

definition budget_points :: "campaign \<Rightarrow> designer \<Rightarrow> real" where
  "budget_points c d =
     (case rate_tier d of
        Some r \<Rightarrow> if budget c \<ge> r then 20 else 0
      | None \<Rightarrow> 0)"

definition interactivity_points :: "campaign \<Rightarrow> designer \<Rightarrow> real" where
  "interactivity_points c d =
     (case game_logic_experience d of
        None \<Rightarrow> 0
      | Some g \<Rightarrow> (case interactivity c of None \<Rightarrow> 0 | Some i \<Rightarrow> if g \<ge> i then 15 else 0))"

definition timeline_points :: "campaign \<Rightarrow> designer \<Rightarrow> real" where
  "timeline_points c d =
     (case availability d of
        None \<Rightarrow> 0
      | Some a \<Rightarrow>
          (case timeline c of
             None \<Rightarrow> 0
           | Some t \<Rightarrow> if a \<noteq> [] \<and> t \<noteq> [] \<and> a \<le> t then 10 else 0))"

definition performance_points :: "designer \<Rightarrow> real" where
  "performance_points d =
     (case performance_score d of
        None \<Rightarrow> 0
      | Some p \<Rightarrow> if p \<noteq> 0 then p * 5 else 0)"

definition calculate_match_score :: "campaign \<Rightarrow> designer \<Rightarrow> py_error + real" where
  "calculate_match_score c d =
     (let score = 0 + budget_points c d;
          scene = deserialize_list (scene_tags d)
      in case wanted_in (ambiance c) scene of
           Inl e \<Rightarrow> Inl e
         | Inr amb \<Rightarrow>
      let score = (if amb then score + 20 else score);
          formats = deserialize_list (export_formats d)
      in case wanted_in (platform_pref c) formats of
           Inl e \<Rightarrow> Inl e
         | Inr plat \<Rightarrow>
      let score = (if plat then score + 15 else score);
          score = score + interactivity_points c d;
          visual = deserialize_list (visual_metadata d)
      in case wanted_in (style c) visual of
           Inl e \<Rightarrow> Inl e
         | Inr sty \<Rightarrow>
      let score = (if sty then score + 15 else score);
          score = score + timeline_points c d;
          score = score + performance_points d
      in Inr score)"

text \<open>
  \<open>match_designers\<close>: the campaign is looked up by its primary key, each designer row has
  its three list fields normalised in place and is scored, the rows at or above the
  threshold are collected in order, and the list is sorted by score, highest first.
  \<open>list.sort\<close> is stable, also with \<open>reverse=True\<close>, and so is \<open>sort_key\<close> on the
  negated score. The validation of the response by the web framework is not modelled.
\<close>

definition normalize_row :: "designer \<Rightarrow> designer" where
  "normalize_row d =
     d\<lparr>scene_tags := deserialize_list (scene_tags d),
       export_formats := deserialize_list (export_formats d),
       visual_metadata := deserialize_list (visual_metadata d)\<rparr>"

definition designer_out :: "designer \<Rightarrow> designer" where
  "designer_out d =
     d\<lparr>performance_score :=
         Some (case performance_score d of None \<Rightarrow> 0 | Some p \<Rightarrow> if p \<noteq> 0 then p else 0)\<rparr>"

fun score_designers ::
  "campaign \<Rightarrow> real \<Rightarrow> designer list \<Rightarrow> scored_designer list \<Rightarrow> py_error + scored_designer list"
where
  "score_designers c t [] acc = Inr acc"
| "score_designers c t (d # ds) acc =
     (let d' = normalize_row d in
      case calculate_match_score c d' of
        Inl e \<Rightarrow> Inl e
      | Inr score \<Rightarrow>
          if score \<ge> t
          then score_designers c t ds (acc @ [\<lparr>sd_designer = designer_out d', sd_score = score\<rparr>])
          else score_designers c t ds acc)"

definition fetch_campaign :: "database \<Rightarrow> int \<Rightarrow> campaign option" where
  "fetch_campaign db cid = find (\<lambda>c. campaign_id c = cid) (campaigns db)"

definition match_designers :: "database \<Rightarrow> match_request \<Rightarrow> py_error + scored_designer list" where
  "match_designers db match_request =
     (case fetch_campaign db (mr_campaign_id match_request) of
        None \<Rightarrow> Inl (HTTPException 404)
      | Some c \<Rightarrow>
          (case score_designers c (threshold match_request) (designers db) [] of
             Inl e \<Rightarrow> Inl e
           | Inr scored_designers \<Rightarrow> Inr (sort_key (\<lambda>sd. - sd_score sd) scored_designers)))"

section \<open>The scorer in double precision\<close>

text \<open>
  A Python \<open>float\<close> is a number of the IEEE 754 binary64 format, and \<open>+\<close> and \<open>*\<close> give
  the number of the format nearest to the exact result, a tie going to the even
  significand. \<open>round_double\<close> is this rounding on the reals. A magnitude \<open>m\<close> lies in
  the binade of exponent \<open>double_exponent m\<close>, which is at least \<open>-1022\<close>, where the
  subnormal numbers begin; the numbers of the format in the binade of exponent \<open>e\<close> are
  the multiples of \<open>2 powi (e - 52)\<close>, and the magnitude is rounded to one of them. The
  largest number of the format is left out: a result beyond it stays finite here, where
  Python gives \<open>inf\<close>; \<open>inf\<close> and \<open>nan\<close> are not values of the model.
\<close>

definition round_half_even :: "real \<Rightarrow> int" where
  "round_half_even q =
     (let f = \<lfloor>q\<rfloor>; r = q - of_int f
      in if r < 1 / 2 then f else if 1 / 2 < r then f + 1 else if even f then f else f + 1)"

definition double_exponent :: "real \<Rightarrow> int" where
  "double_exponent m = max \<lfloor>log 2 m\<rfloor> (- 1022)"

definition round_magnitude :: "real \<Rightarrow> real" where
  "round_magnitude m =
     (let u = 2 powi (double_exponent m - 52)
      in of_int (round_half_even (m / u)) * u)"

definition round_double :: "real \<Rightarrow> real" where
  "round_double x =
     (if x = 0 then 0 else if 0 < x then round_magnitude x else - round_magnitude (- x))"

text \<open>
  \<open>calculate_match_score\<close> once more, statement by statement, in this arithmetic:
  \<open>if cond: score += w\<close> is \<open>add_if\<close>, and the product of the performance term is
  \<open>double_mul\<close>. The conditions are those of the source; the performance score stands for
  the double held by the row. \<open>calculate_match_score\<close> above is the same function in
  exact arithmetic.
\<close>

definition double_add :: "real \<Rightarrow> real \<Rightarrow> real" where
  "double_add x y = round_double (x + y)"

definition double_mul :: "real \<Rightarrow> real \<Rightarrow> real" where
  "double_mul x y = round_double (x * y)"

definition add_if :: "bool \<Rightarrow> real \<Rightarrow> real \<Rightarrow> real" where
  "add_if cond score w = (if cond then double_add score w else score)"

definition budget_ok :: "campaign \<Rightarrow> designer \<Rightarrow> bool" where
  "budget_ok c d = (case rate_tier d of None \<Rightarrow> False | Some r \<Rightarrow> budget c \<ge> r)"

definition interactivity_ok :: "campaign \<Rightarrow> designer \<Rightarrow> bool" where
  "interactivity_ok c d =
     (case game_logic_experience d of
        None \<Rightarrow> False
      | Some g \<Rightarrow> (case interactivity c of None \<Rightarrow> False | Some i \<Rightarrow> g \<ge> i))"

definition timeline_ok :: "campaign \<Rightarrow> designer \<Rightarrow> bool" where
  "timeline_ok c d =
     (case availability d of
        None \<Rightarrow> False
      | Some a \<Rightarrow> (case timeline c of None \<Rightarrow> False | Some t \<Rightarrow> a \<noteq> [] \<and> t \<noteq> [] \<and> a \<le> t))"

definition add_performance :: "designer \<Rightarrow> real \<Rightarrow> real" where
  "add_performance d score =
     (case performance_score d of
        None \<Rightarrow> score
      | Some p \<Rightarrow> add_if (p \<noteq> 0) score (double_mul p 5))"

definition calculate_match_score_double :: "campaign \<Rightarrow> designer \<Rightarrow> py_error + real" where
  "calculate_match_score_double c d =
     (let score = 0;
          score = add_if (budget_ok c d) score 20;
          scene = deserialize_list (scene_tags d)
      in case wanted_in (ambiance c) scene of
           Inl e \<Rightarrow> Inl e
         | Inr amb \<Rightarrow>
      let score = add_if amb score 20;
          formats = deserialize_list (export_formats d)
      in case wanted_in (platform_pref c) formats of
           Inl e \<Rightarrow> Inl e
         | Inr plat \<Rightarrow>
      let score = add_if plat score 15;
          score = add_if (interactivity_ok c d) score 15;
          visual = deserialize_list (visual_metadata d)
      in case wanted_in (style c) visual of
           Inl e \<Rightarrow> Inl e
         | Inr sty \<Rightarrow>
      let score = add_if sty score 15;
          score = add_if (timeline_ok c d) score 10;
          score = add_performance d score
      in Inr score)"

section \<open>The scenario of the specification\<close>

definition campaign1 :: campaign where
  "campaign1 =
     \<lparr>campaign_id = 1, budget = 500, ambiance = Some (ascii ''calm''),
      platform_pref = Some (ascii ''Quest''), interactivity = Some 3,
      style = Some (ascii ''minimalist''), timeline = Some (ascii ''2024-06-01'')\<rparr>"

definition designer1 :: designer where
  "designer1 =
     \<lparr>designer_id = 1, name = ascii ''Ada'', rate_tier = Some 400,
      scene_tags = str_list [ascii ''calm'', ascii ''vibrant''],
      export_formats = str_list [ascii ''Quest'', ascii ''WebXR''],
      game_logic_experience = Some 5,
      visual_metadata = str_list [ascii ''minimalist''],
      availability = Some (ascii ''2024-05-01''),
      performance_score = Some (8 / 10)\<rparr>"

definition database1 :: database where
  "database1 =
     \<lparr>campaigns = [campaign1],
      designers = [designer1\<lparr>designer_id := 1, rate_tier := Some 600\<rparr>,
                   designer1\<lparr>designer_id := 2\<rparr>,
                   designer1\<lparr>designer_id := 3, rate_tier := Some 450\<rparr>]\<rparr>"

text \<open>A designer that meets no criterion of \<open>campaign1\<close> except, with the rate tier of
  \<open>designer1\<close>, the budget, and has the performance score \<open>p\<close>.\<close>

definition designer2 :: "real \<Rightarrow> designer" where
  "designer2 p =
     designer1\<lparr>scene_tags := str_list [], export_formats := str_list [],
       game_logic_experience := Some 0, visual_metadata := str_list [],
       availability := Some (ascii ''2024-07-01''), performance_score := Some p\<rparr>"

section \<open>Properties of the rounding\<close>

lemma round_half_even_of_int: "round_half_even (of_int n) = n"
  by (simp add: round_half_even_def)

lemma round_half_even_bounds: "\<lfloor>q\<rfloor> \<le> round_half_even q" "round_half_even q \<le> \<lfloor>q\<rfloor> + 1"
  by (simp_all add: round_half_even_def Let_def)

lemma round_half_even_mono:
  assumes "q \<le> q'"
  shows "round_half_even q \<le> round_half_even q'"
proof (cases "\<lfloor>q\<rfloor> = \<lfloor>q'\<rfloor>")
  case True
  with assms have "q - of_int \<lfloor>q\<rfloor> \<le> q' - of_int \<lfloor>q'\<rfloor>" by simp
  with True show ?thesis
    by (auto simp: round_half_even_def Let_def)
next
  case False
  with assms have "\<lfloor>q\<rfloor> < \<lfloor>q'\<rfloor>"
    using floor_mono [OF assms] by simp
  then have "round_half_even q \<le> \<lfloor>q'\<rfloor>"
    using round_half_even_bounds(2) [of q] by simp
  then show ?thesis
    using round_half_even_bounds(1) [of q'] by simp
qed

lemma double_exponent_upper:
  assumes "0 < m"
  shows "m < 2 powi (double_exponent m + 1)"
proof -
  have "m < 2 powr (real_of_int \<lfloor>log 2 m\<rfloor> + 1)"
    using assms floor_log_eq_powr_iff [of m 2 "\<lfloor>log 2 m\<rfloor>"] by simp
  also have "\<dots> = 2 powi (\<lfloor>log 2 m\<rfloor> + 1)"
    using powr_real_of_int' [of 2 "\<lfloor>log 2 m\<rfloor> + 1"] by simp
  also have "\<dots> \<le> 2 powi (double_exponent m + 1)"
    by (rule power_int_increasing) (simp_all add: double_exponent_def)
  finally show ?thesis .
qed

lemma double_exponent_lower:
  assumes "0 < m" and "- 1022 < double_exponent m"
  shows "2 powi double_exponent m \<le> m"
proof -
  from assms(2) have e: "double_exponent m = \<lfloor>log 2 m\<rfloor>"
    by (simp add: double_exponent_def max_def split: if_splits)
  have "2 powr real_of_int \<lfloor>log 2 m\<rfloor> \<le> m"
    using assms(1) floor_log_eq_powr_iff [of m 2 "\<lfloor>log 2 m\<rfloor>"] by simp
  then show ?thesis
    using powr_real_of_int' [of 2 "\<lfloor>log 2 m\<rfloor>"] e by simp
qed

lemma double_exponent_mono:
  assumes "0 < m" and "m \<le> m'"
  shows "double_exponent m \<le> double_exponent m'"
proof -
  from assms have "log 2 m \<le> log 2 m'" by simp
  then have "\<lfloor>log 2 m\<rfloor> \<le> \<lfloor>log 2 m'\<rfloor>" by (rule floor_mono)
  then show ?thesis
    unfolding double_exponent_def by (intro max.mono order_refl)
qed

lemma double_exponent_eq:
  assumes "2 powi e \<le> m" and "m < 2 powi (e + 1)" and "- 1022 \<le> e"
  shows "double_exponent m = e"
proof -
  have pos: "0 < m"
    using assms(1) zero_less_power_int [of "2::real" e] by linarith
  have "2 powr real_of_int e \<le> m" "m < 2 powr (real_of_int e + 1)"
    using assms(1,2) powr_real_of_int' [of 2 e] powr_real_of_int' [of 2 "e + 1"] by simp_all
  then have "\<lfloor>log 2 m\<rfloor> = e"
    using floor_log_eq_powr_iff [of m 2 e] pos by simp
  with assms(3) show ?thesis by (simp add: double_exponent_def)
qed


lemma double_exponent_ge: "- 1022 \<le> double_exponent m"
  by (simp add: double_exponent_def)

lemma ulp_pos: "0 < (2::real) powi k"
  by simp

lemma ulp_binade: "(2::real) powi (e + 1) = 2 ^ 53 * 2 powi (e - 52)"
proof -
  have "e + 1 = 53 + (e - 52)" by simp
  then have "(2::real) powi (e + 1) = 2 powi (53 + (e - 52))" by (simp only:)
  also have "\<dots> = 2 powi 53 * 2 powi (e - 52)"
    by (rule power_int_add) simp
  finally show ?thesis by simp
qed

lemma ulp_binade_low: "(2::real) powi e = 2 ^ 52 * 2 powi (e - 52)"
proof -
  have "e = 52 + (e - 52)" by simp
  then have "(2::real) powi e = 2 powi (52 + (e - 52))" by (simp only:)
  also have "\<dots> = 2 powi 52 * 2 powi (e - 52)"
    by (rule power_int_add) simp
  finally show ?thesis by simp
qed

lemma round_magnitude_nonneg:
  assumes "0 < m"
  shows "0 \<le> round_magnitude m"
proof -
  let ?u = "(2::real) powi (double_exponent m - 52)"
  have "0 \<le> m / ?u" using assms by simp
  then have "round_half_even 0 \<le> round_half_even (m / ?u)"
    by (rule round_half_even_mono)
  then have "0 \<le> round_half_even (m / ?u)"
    using round_half_even_of_int [of 0] by simp
  then show ?thesis
    by (simp add: round_magnitude_def Let_def)
qed

lemma round_magnitude_upper:
  assumes "0 < m"
  shows "round_magnitude m \<le> 2 powi (double_exponent m + 1)"
proof -
  let ?u = "(2::real) powi (double_exponent m - 52)"
  have u: "0 < ?u" by simp
  have "m < 2 ^ 53 * ?u"
    using double_exponent_upper [OF assms] ulp_binade [of "double_exponent m"] by simp
  then have "m / ?u \<le> of_int (2 ^ 53)"
    using u by (simp add: pos_divide_le_eq)
  then have "round_half_even (m / ?u) \<le> round_half_even (of_int (2 ^ 53))"
    by (rule round_half_even_mono)
  then have "round_half_even (m / ?u) \<le> 2 ^ 53"
    by (simp only: round_half_even_of_int)
  then have "real_of_int (round_half_even (m / ?u)) \<le> real_of_int (2 ^ 53)"
    by (simp only: of_int_le_iff)
  then have "real_of_int (round_half_even (m / ?u)) \<le> 2 ^ 53"
    by simp
  then have "real_of_int (round_half_even (m / ?u)) * ?u \<le> 2 ^ 53 * ?u"
    using u by (simp only: mult_le_cancel_right_pos)
  then show ?thesis
    using ulp_binade [of "double_exponent m"] by (simp add: round_magnitude_def Let_def)
qed

lemma round_magnitude_lower:
  assumes "0 < m" and "- 1022 < double_exponent m"
  shows "2 powi double_exponent m \<le> round_magnitude m"
proof -
  let ?u = "(2::real) powi (double_exponent m - 52)"
  have u: "0 < ?u" by simp
  have "2 ^ 52 * ?u \<le> m"
    using double_exponent_lower [OF assms] ulp_binade_low [of "double_exponent m"] by simp
  then have "of_int (2 ^ 52) \<le> m / ?u"
    using u by (simp add: pos_le_divide_eq)
  then have "round_half_even (of_int (2 ^ 52)) \<le> round_half_even (m / ?u)"
    by (rule round_half_even_mono)
  then have "2 ^ 52 \<le> round_half_even (m / ?u)"
    by (simp only: round_half_even_of_int)
  then have "real_of_int (2 ^ 52) \<le> real_of_int (round_half_even (m / ?u))"
    by (simp only: of_int_le_iff)
  then have "2 ^ 52 \<le> real_of_int (round_half_even (m / ?u))"
    by simp
  then have "2 ^ 52 * ?u \<le> real_of_int (round_half_even (m / ?u)) * ?u"
    using u by (simp only: mult_le_cancel_right_pos)
  then show ?thesis
    using ulp_binade_low [of "double_exponent m"] by (simp add: round_magnitude_def Let_def)
qed

lemma round_magnitude_mono:
  assumes "0 < m" and "m \<le> m'"
  shows "round_magnitude m \<le> round_magnitude m'"
proof (cases "double_exponent m = double_exponent m'")
  case True
  let ?u = "(2::real) powi (double_exponent m - 52)"
  have u: "0 < ?u" by simp
  from assms(2) u have "m / ?u \<le> m' / ?u"
    by (simp add: divide_right_mono)
  then have "round_half_even (m / ?u) \<le> round_half_even (m' / ?u)"
    by (rule round_half_even_mono)
  then have "real_of_int (round_half_even (m / ?u)) * ?u \<le> real_of_int (round_half_even (m' / ?u)) * ?u"
    using u by (simp only: mult_le_cancel_right_pos of_int_le_iff)
  then show ?thesis
    by (simp add: round_magnitude_def Let_def True)
next
  case False
  with double_exponent_mono [OF assms] have lt: "double_exponent m < double_exponent m'"
    by simp
  from assms have m': "0 < m'" by simp
  have "round_magnitude m \<le> 2 powi (double_exponent m + 1)"
    by (rule round_magnitude_upper [OF assms(1)])
  also have "\<dots> \<le> 2 powi double_exponent m'"
    using lt by (intro power_int_increasing) simp_all
  also have "\<dots> \<le> round_magnitude m'"
    using lt double_exponent_ge [of m] by (intro round_magnitude_lower [OF m']) simp
  finally show ?thesis .
qed

lemma round_double_mono:
  assumes "x \<le> y"
  shows "round_double x \<le> round_double y"
proof -
  consider (pos) "0 < x" | (neg) "y < 0" | (mid) "x \<le> 0" "0 \<le> y"
    by linarith
  then show ?thesis
  proof cases
    case pos
    with assms round_magnitude_mono [OF pos assms] show ?thesis
      by (simp add: round_double_def)
  next
    case neg
    with assms have "0 < - y" "- y \<le> - x" by simp_all
    from round_magnitude_mono [OF this] neg assms show ?thesis
      by (simp add: round_double_def)
  next
    case mid
    have "round_double x \<le> 0"
      using mid(1) round_magnitude_nonneg [of "- x"] by (simp add: round_double_def)
    moreover have "0 \<le> round_double y"
      using mid(2) round_magnitude_nonneg [of y] by (simp add: round_double_def)
    ultimately show ?thesis by simp
  qed
qed

text \<open>A value on the grid of its binade is a double, and rounding leaves it as it is.\<close>

lemma round_double_exact:
  assumes "0 < x" and "2 powi e \<le> x" and "x < 2 powi (e + 1)" and "- 1022 \<le> e"
    and "x / 2 powi (e - 52) = of_int n"
  shows "round_double x = x"
proof -
  have e: "double_exponent x = e"
    by (rule double_exponent_eq [OF assms(2,3,4)])
  have "round_magnitude x = of_int n * 2 powi (e - 52)"
    by (simp add: round_magnitude_def Let_def e assms(5) round_half_even_of_int)
  also have "\<dots> = x"
    using assms(5) by (simp add: field_simps)
  finally show ?thesis
    using assms(1) by (simp add: round_double_def)
qed

lemma round_double_of_nat:
  assumes "0 < n" and "n < 2 ^ 53"
  shows "round_double (real n) = real n"
proof -
  let ?e = "double_exponent (real n)"
  have pos: "0 < real n" using assms(1) by simp
  have "0 \<le> log 2 (real n)"
    using assms(1) by simp
  then have e0: "0 \<le> ?e"
    by (simp add: double_exponent_def)
  then have low: "2 powi ?e \<le> real n"
    by (intro double_exponent_lower [OF pos]) simp
  have e52: "?e \<le> 52"
  proof (rule ccontr)
    assume "\<not> ?e \<le> 52"
    then have "(2::real) powi 53 \<le> 2 powi ?e"
      by (intro power_int_increasing) simp_all
    with low have "(2::real) ^ 53 \<le> real n" by simp
    moreover have "real n < 2 ^ 53"
      using assms(2) by (metis of_nat_less_iff of_nat_numeral of_nat_power)
    ultimately show False by simp
  qed
  define k where "k = nat (52 - ?e)"
  have "?e - 52 = - int k"
    using e52 by (simp add: k_def)
  then have "(2::real) powi (?e - 52) = inverse (2 ^ k)"
    by (simp add: power_int_minus)
  then have "real n / 2 powi (?e - 52) = of_int (int n * 2 ^ k)"
    by (simp add: field_simps)
  with pos low show ?thesis
    using double_exponent_upper [OF pos] e0
    by (intro round_double_exact [where e = "?e" and n = "int n * 2 ^ k"]) simp_all
qed

lemma round_double_numeral:
  "(numeral k :: nat) < 2 ^ 53 \<Longrightarrow> round_double (numeral k) = numeral k"
  using round_double_of_nat [of "numeral k"] by simp

lemma round_double_zero: "round_double 0 = 0"
  by (simp add: round_double_def)

text \<open>The value of \<open>round_double\<close> on a magnitude whose binade is known.\<close>

lemma round_double_eval:
  assumes "2 powi e \<le> x" and "x < 2 powi (e + 1)" and "- 1022 \<le> e"
  shows "round_double x = of_int (round_half_even (x / 2 powi (e - 52))) * 2 powi (e - 52)"
proof -
  have pos: "0 < x"
    using assms(1) zero_less_power_int [of "2::real" e] by linarith
  have "double_exponent x = e"
    by (rule double_exponent_eq [OF assms])
  with pos show ?thesis
    by (simp add: round_double_def round_magnitude_def Let_def)
qed

lemma add_if_mono: "x \<le> y \<Longrightarrow> add_if b x w \<le> add_if b y w"
  by (simp add: add_if_def double_add_def round_double_mono)

lemma add_performance_mono: "x \<le> y \<Longrightarrow> add_performance d x \<le> add_performance d y"
  by (simp add: add_performance_def add_if_mono split: option.splits)

lemma double_add_0_20: "double_add 0 20 = 20"
  by (simp add: double_add_def round_double_numeral)

section \<open>Properties of the scorer and of the codec\<close>

lemmas points_defs = budget_points_def interactivity_points_def timeline_points_def performance_points_def

lemmas scenario_defs = campaign1_def designer1_def str_list_def ascii_def

lemmas loads_defs = json_loads_def skip_ws_def json_ws_def starts_with_def
  match_number_def match_sign_def is_digit_def match_frac_def match_exp_def digits_val_def

text \<open>
  Claim C1. On the campaign and the designer of the specification's scenario the scorer
  returns 99, and 79 once the designer's rate tier is 600, above the budget of 500.
\<close>

theorem scenario_scores:
  "calculate_match_score campaign1 designer1 = Inr 99 \<and>
   calculate_match_score campaign1 (designer1\<lparr>rate_tier := Some 600\<rparr>) = Inr 79"
  by (simp add: calculate_match_score_def wanted_in_def points_defs scenario_defs)

text \<open>
  Claim C2 does not hold as stated: \<open>performance_score\<close> is not restricted to
  \<open>[0, 1]\<close>, and a designer that meets no criterion and has the performance score
  \<open>-1\<close> gets the score \<open>-5\<close>.
\<close>

theorem negative_performance_counterexample:
  "calculate_match_score campaign1
     (designer1\<lparr>rate_tier := Some 600, scene_tags := str_list [], export_formats := str_list [],
        game_logic_experience := Some 0, visual_metadata := str_list [],
        availability := Some (ascii ''2024-07-01''), performance_score := Some (- 1)\<rparr>) = Inr (- 5)"
  by (simp add: calculate_match_score_def wanted_in_def points_defs scenario_defs)

lemma py_in_str_list: "is_str_list v \<Longrightarrow> \<exists>b. py_in x v = Inr b"
  by (cases v) (simp_all add: is_str_list_def)

lemma wanted_in_str_list: "is_str_list v \<Longrightarrow> \<exists>b. wanted_in w v = Inr b"
  using py_in_str_list [of v] by (auto simp: wanted_in_def split: option.splits)

lemma points_nonneg:
  "0 \<le> budget_points c d" "0 \<le> interactivity_points c d" "0 \<le> timeline_points c d"
  by (simp_all add: points_defs split: option.splits)

lemma performance_points_nonneg:
  "\<forall>p. performance_score d = Some p \<longrightarrow> 0 \<le> p \<Longrightarrow> 0 \<le> performance_points d"
  by (simp add: performance_points_def split: option.splits)

lemma score_lower_bound:
  assumes "calculate_match_score c d = Inr s"
  shows "performance_points d \<le> s"
proof -
  have "0 \<le> budget_points c d + interactivity_points c d + timeline_points c d"
    using points_nonneg [of c d] by simp
  with assms show ?thesis
    by (auto simp: calculate_match_score_def Let_def split: sum.splits if_splits)
qed

text \<open>
  Claim C2, amended. For every campaign and every designer whose three list fields
  normalise to sequences of strings and whose performance score is absent or not
  negative, the scorer returns a score, and the score is at least 0.
\<close>

theorem score_nonneg:
  assumes "is_str_list (deserialize_list (scene_tags d))"
    and "is_str_list (deserialize_list (export_formats d))"
    and "is_str_list (deserialize_list (visual_metadata d))"
    and "\<forall>p. performance_score d = Some p \<longrightarrow> 0 \<le> p"
  shows "\<exists>s. calculate_match_score c d = Inr s \<and> 0 \<le> s"
proof -
  obtain a where a: "wanted_in (ambiance c) (deserialize_list (scene_tags d)) = Inr a"
    using wanted_in_str_list [OF assms(1)] by blast
  obtain b where b: "wanted_in (platform_pref c) (deserialize_list (export_formats d)) = Inr b"
    using wanted_in_str_list [OF assms(2)] by blast
  obtain e where e: "wanted_in (style c) (deserialize_list (visual_metadata d)) = Inr e"
    using wanted_in_str_list [OF assms(3)] by blast
  from a b e obtain s where s: "calculate_match_score c d = Inr s"
    by (simp add: calculate_match_score_def Let_def)
  moreover have "0 \<le> s"
    using score_lower_bound [OF s] performance_points_nonneg [OF assms(4)] by simp
  ultimately show ?thesis by blast
qed

theorem score_nonneg_witness:
  "\<exists>s. calculate_match_score campaign1 designer1 = Inr s \<and> 0 \<le> s"
  using score_nonneg [of designer1 campaign1]
  by (simp add: is_str_list_def scenario_defs)

text \<open>
  In exact arithmetic, moving the designer's rate tier from a value within the budget to
  a value above it takes the budget criterion from 20 to 0 and a total score \<open>s\<close> to
  \<open>s - 20\<close>.
\<close>

lemma rate_tier_exact_arithmetic:
  assumes "r1 \<le> budget c" and "budget c < r2"
  shows "budget_points c (d\<lparr>rate_tier := Some r1\<rparr>) = 20 \<and>
         budget_points c (d\<lparr>rate_tier := Some r2\<rparr>) = 0 \<and>
         (\<forall>s. calculate_match_score c (d\<lparr>rate_tier := Some r1\<rparr>) = Inr s \<longrightarrow>
              calculate_match_score c (d\<lparr>rate_tier := Some r2\<rparr>) = Inr (s - 20))"
  using assms
  by (auto simp: calculate_match_score_def Let_def points_defs split: sum.splits)

lemmas double_defs = calculate_match_score_double_def add_if_def double_add_def double_mul_def
  budget_ok_def interactivity_ok_def timeline_ok_def add_performance_def

text \<open>
  The sums of the six criteria are integers of at most 95, which the format holds, so
  that no addition of a criterion rounds; without a performance score the scorer in
  double precision and the scorer in exact arithmetic agree.
\<close>

lemma criteria_sum_exact:
  fixes a1 a2 a3 a4 a5 :: bool
  shows "add_if a5 (add_if a4 (add_if a3 (add_if a2 (add_if a1 (add_if True 0 20) 20) 15) 15) 15) 10 =
         add_if a5 (add_if a4 (add_if a3 (add_if a2 (add_if a1 (add_if False 0 20) 20) 15) 15) 15) 10 + 20"
  by (cases a1; cases a2; cases a3; cases a4; cases a5)
    (simp_all add: add_if_def double_add_def round_double_numeral)

lemma add_performance_absent:
  "performance_score d = None \<or> performance_score d = Some 0 \<Longrightarrow> add_performance d x = x"
  by (auto simp: add_performance_def add_if_def)

lemma double_score_agrees:
  assumes "performance_score d = None \<or> performance_score d = Some 0"
  shows "calculate_match_score_double c d = calculate_match_score c d"
proof -
  have p: "add_performance d x = x" for x
    by (rule add_performance_absent [OF assms])
  have q: "performance_points d = 0"
    using assms by (auto simp: performance_points_def)
  have pts: "budget_points c d = (if budget_ok c d then 20 else 0)"
    "interactivity_points c d = (if interactivity_ok c d then 15 else 0)"
    "timeline_points c d = (if timeline_ok c d then 10 else 0)"
    by (simp_all add: points_defs budget_ok_def interactivity_ok_def timeline_ok_def split: option.splits)
  have sums: "add_if a6 (add_if a5 (add_if a4 (add_if a3 (add_if a2 (add_if a1 0 20) 20) 15) 15) 15) 10 =
      (if a1 then 20 else 0) + (if a2 then 20 else 0) + (if a3 then 15 else 0) +
      (if a4 then 15 else 0) + (if a5 then 15 else 0) + (if a6 then 10 else 0)" for a1 a2 a3 a4 a5 a6
    by (cases a1; cases a2; cases a3; cases a4; cases a5; cases a6)
      (simp_all add: add_if_def double_add_def round_double_numeral)
  show ?thesis
    unfolding calculate_match_score_double_def calculate_match_score_def Let_def p q pts
    by (simp add: sums split: sum.splits)
qed

text \<open>
  The doubles of the examples below: \<open>5 * 10 ^ 17\<close> lies in the binade of exponent 58,
  where the numbers of the format are 64 apart, so that adding 20 to it is lost;
  \<open>1152921504606846976\<close> is \<open>2 ^ 60\<close>, and \<open>20 + 5 / 2 ^ 60\<close>, the fraction
  \<open>23058430092136939525 / 2 ^ 60\<close>, lies in the binade of exponent 4, where the numbers
  of the format are \<open>1 / 2 ^ 48\<close> apart.
\<close>

lemma round_double_large:
  "round_double 500000000000000000 = 500000000000000000"
  "round_double 500000000000000020 = 500000000000000000"
  using round_double_eval [of 58 500000000000000000] round_double_eval [of 58 500000000000000020]
  by (simp_all add: round_half_even_def)

lemma round_double_tiny:
  "round_double (5 / 1152921504606846976) = 5 / 1152921504606846976"
  "round_double (23058430092136939525 / 1152921504606846976) = 20"
  using round_double_eval [of "- 58" "5 / 1152921504606846976"]
    round_double_eval [of 4 "23058430092136939525 / 1152921504606846976"]
  by (simp_all add: round_half_even_def)

lemma round_double_halves:
  "round_double (5 / 2) = 5 / 2" "round_double (195 / 2) = 195 / 2" "round_double (155 / 2) = 155 / 2"
  using round_double_eval [of 1 "5 / 2"] round_double_eval [of 6 "195 / 2"]
    round_double_eval [of 6 "155 / 2"]
  by (simp_all add: round_half_even_def)

text \<open>
  Claim C9 does not hold as stated: the total does not always decrease by exactly 20,
  because the additions round. For a designer that meets no other criterion and has the
  performance score \<open>10 ^ 17\<close>, the total is \<open>5 * 10 ^ 17\<close> with the rate tier 400, within
  the budget of 500, and with the rate tier 600, above it: the 20 of the budget criterion
  are lost when the performance term is added. With the performance score \<open>1 / 2 ^ 60\<close>
  the totals are \<open>20\<close> and \<open>5 / 2 ^ 60\<close>, and their difference is less than 20.
\<close>

theorem rounding_absorbs_budget_counterexample:
  "calculate_match_score_double campaign1 ((designer2 (10 ^ 17))\<lparr>rate_tier := Some 400\<rparr>) = Inr (5 * 10 ^ 17) \<and>
   calculate_match_score_double campaign1 ((designer2 (10 ^ 17))\<lparr>rate_tier := Some 600\<rparr>) = Inr (5 * 10 ^ 17) \<and>
   calculate_match_score_double campaign1 ((designer2 (1 / 2 ^ 60))\<lparr>rate_tier := Some 400\<rparr>) = Inr 20 \<and>
   calculate_match_score_double campaign1 ((designer2 (1 / 2 ^ 60))\<lparr>rate_tier := Some 600\<rparr>) = Inr (5 / 2 ^ 60)"
  by (simp add: double_defs designer2_def wanted_in_def scenario_defs round_double_numeral
      round_double_large round_double_tiny)

text \<open>
  Claim C9, amended. With everything else fixed, moving the designer's rate tier from a
  value within the budget to a value above it takes the contribution of the budget
  criterion from exactly 20 to 0; if the scorer returns a total \<open>s\<close> for the first
  designer, it returns a total for the second, which is not greater than \<open>s\<close>, and which
  is exactly \<open>s - 20\<close> when the designer has no performance score or the performance
  score 0.
\<close>

theorem rate_tier_above_budget:
  assumes "r1 \<le> budget c" and "budget c < r2"
  shows "budget_points c (d\<lparr>rate_tier := Some r1\<rparr>) = 20 \<and>
         budget_points c (d\<lparr>rate_tier := Some r2\<rparr>) = 0 \<and>
         add_if (budget_ok c (d\<lparr>rate_tier := Some r1\<rparr>)) 0 20 = 20 \<and>
         add_if (budget_ok c (d\<lparr>rate_tier := Some r2\<rparr>)) 0 20 = 0 \<and>
         (\<forall>s. calculate_match_score_double c (d\<lparr>rate_tier := Some r1\<rparr>) = Inr s \<longrightarrow>
            (\<exists>s'. calculate_match_score_double c (d\<lparr>rate_tier := Some r2\<rparr>) = Inr s' \<and> s' \<le> s \<and>
                  (performance_score d = None \<or> performance_score d = Some 0 \<longrightarrow> s' = s - 20)))"
proof (intro conjI allI impI)
  show "budget_points c (d\<lparr>rate_tier := Some r1\<rparr>) = 20"
    using assms(1) by (simp add: budget_points_def)
  show "budget_points c (d\<lparr>rate_tier := Some r2\<rparr>) = 0"
    using assms(2) by (simp add: budget_points_def)
  show "add_if (budget_ok c (d\<lparr>rate_tier := Some r1\<rparr>)) 0 20 = 20"
    using assms(1) by (simp add: budget_ok_def add_if_def double_add_0_20)
  show "add_if (budget_ok c (d\<lparr>rate_tier := Some r2\<rparr>)) 0 20 = 0"
    using assms(2) by (simp add: budget_ok_def add_if_def)
next
  fix s
  let ?d1 = "d\<lparr>rate_tier := Some r1\<rparr>" and ?d2 = "d\<lparr>rate_tier := Some r2\<rparr>"
  assume s: "calculate_match_score_double c ?d1 = Inr s"
  have b: "budget_ok c ?d1" "\<not> budget_ok c ?d2"
    using assms by (simp_all add: budget_ok_def)
  have same: "interactivity_ok c ?d1 = interactivity_ok c d" "interactivity_ok c ?d2 = interactivity_ok c d"
    "timeline_ok c ?d1 = timeline_ok c d" "timeline_ok c ?d2 = timeline_ok c d"
    "add_performance ?d1 = add_performance d" "add_performance ?d2 = add_performance d"
    by (simp_all add: interactivity_ok_def timeline_ok_def add_performance_def fun_eq_iff)
  from s obtain amb plat sty where
    w: "wanted_in (ambiance c) (deserialize_list (scene_tags d)) = Inr amb"
       "wanted_in (platform_pref c) (deserialize_list (export_formats d)) = Inr plat"
       "wanted_in (style c) (deserialize_list (visual_metadata d)) = Inr sty"
    by (auto simp: calculate_match_score_double_def Let_def split: sum.splits)
  define criteria where "criteria = (\<lambda>x. add_if (timeline_ok c d)
      (add_if sty (add_if (interactivity_ok c d) (add_if plat (add_if amb x 20) 15) 15) 15) 10)"
  have mono: "add_performance d (criteria x) \<le> add_performance d (criteria y)" if "x \<le> y" for x y
    unfolding criteria_def using that
    by (intro add_performance_mono add_if_mono)
  from s b w same have s1: "s = add_performance d (criteria (add_if True 0 20))"
    by (simp add: calculate_match_score_double_def Let_def criteria_def)
  from b w same have s2:
    "calculate_match_score_double c ?d2 = Inr (add_performance d (criteria (add_if False 0 20)))"
    by (simp add: calculate_match_score_double_def Let_def criteria_def)
  have "add_if False 0 20 \<le> add_if True 0 20"
    by (simp add: add_if_def double_add_0_20)
  then have le: "add_performance d (criteria (add_if False 0 20)) \<le> s"
    unfolding s1 by (rule mono)
  have exact: "add_performance d (criteria (add_if False 0 20)) = s - 20"
    if "performance_score d = None \<or> performance_score d = Some 0"
    unfolding s1 add_performance_absent [OF that] criteria_def
    using criteria_sum_exact [of "timeline_ok c d" sty "interactivity_ok c d" plat amb] by simp
  from s2 le exact
  show "\<exists>s'. calculate_match_score_double c ?d2 = Inr s' \<and> s' \<le> s \<and>
          (performance_score d = None \<or> performance_score d = Some 0 \<longrightarrow> s' = s - 20)"
    by blast
qed

theorem rate_tier_above_budget_witness:
  "calculate_match_score_double campaign1 (designer1\<lparr>performance_score := Some (1 / 2), rate_tier := Some 400\<rparr>) = Inr (195 / 2) \<and>
   calculate_match_score_double campaign1 (designer1\<lparr>performance_score := Some (1 / 2), rate_tier := Some 600\<rparr>) = Inr (155 / 2) \<and>
   calculate_match_score_double campaign1 (designer1\<lparr>performance_score := None, rate_tier := Some 400\<rparr>) = Inr 95 \<and>
   calculate_match_score_double campaign1 (designer1\<lparr>performance_score := None, rate_tier := Some 600\<rparr>) = Inr 75"
proof -
  have b: "(400::real) \<le> budget campaign1" "budget campaign1 < (600::real)"
    by (simp_all add: campaign1_def)
  have s1: "calculate_match_score_double campaign1
      (designer1\<lparr>performance_score := Some (1 / 2), rate_tier := Some 400\<rparr>) = Inr (195 / 2)"
    by (simp add: double_defs wanted_in_def scenario_defs round_double_numeral round_double_halves)
  have s2: "calculate_match_score_double campaign1
      (designer1\<lparr>performance_score := Some (1 / 2), rate_tier := Some 600\<rparr>) = Inr (155 / 2)"
    by (simp add: double_defs wanted_in_def scenario_defs round_double_numeral round_double_halves)
  have s3: "calculate_match_score_double campaign1
      (designer1\<lparr>performance_score := None, rate_tier := Some 400\<rparr>) = Inr 95"
    by (simp add: double_defs wanted_in_def scenario_defs round_double_numeral)
  from rate_tier_above_budget [OF b, of "designer1\<lparr>performance_score := None\<rparr>"] s3
  have s4: "calculate_match_score_double campaign1
      (designer1\<lparr>performance_score := None, rate_tier := Some 600\<rparr>) = Inr 75"
    by simp
  from s1 s2 s3 s4 show ?thesis by simp
qed

text \<open>
  Claim C10. Two designers that differ only in that one has the performance score 0 and
  the other has none get the same result from the scorer against every campaign; the
  performance term is 0 for both.
\<close>

theorem zero_performance_as_absent:
  "calculate_match_score c (d\<lparr>performance_score := Some 0\<rparr>) =
     calculate_match_score c (d\<lparr>performance_score := None\<rparr>) \<and>
   performance_points (d\<lparr>performance_score := Some 0\<rparr>) = 0 \<and>
   performance_points (d\<lparr>performance_score := None\<rparr>) = 0"
  by (simp add: calculate_match_score_def Let_def points_defs split: sum.splits)

text \<open>
  Claim C3 does not hold as stated: a list is returned as it is, whatever it holds, so a
  list that is not a sequence of strings is neither emptied nor turned into one.
\<close>

theorem deserialize_native_list_counterexample:
  "deserialize_list (PList [PInt 1]) = PList [PInt 1] \<and>
   \<not> is_str_list (PList [PInt 1]) \<and> PList [PInt 1] \<noteq> PList []"
  by (simp add: is_str_list_def)

text \<open>
  Claim C3, amended. \<open>deserialize_list\<close> has no raising path: the decoder's exceptions
  are caught, and the function returns a value on every input. A list is returned
  unchanged, so a sequence of strings comes back as it is; \<open>None\<close>, blank text, text that
  does not decode, and every value that is neither a list nor a text give the empty list;
  a text that decodes to a list gives that list. What a text that decodes to something
  else gives is not part of the statement.
\<close>

theorem deserialize_list_cases:
  "deserialize_list PNone = PList [] \<and>
   deserialize_list (PList xs) = PList xs \<and>
   deserialize_list (str_list ss) = str_list ss \<and>
   (strip data = [] \<longrightarrow> deserialize_list (PStr data) = PList []) \<and>
   (json_loads (strip data) = None \<longrightarrow> deserialize_list (PStr data) = PList []) \<and>
   (strip data \<noteq> [] \<and> json_loads (strip data) = Some (PList ys)
      \<longrightarrow> deserialize_list (PStr data) = PList ys) \<and>
   deserialize_list (PBool b) = PList [] \<and>
   deserialize_list (PInt i) = PList [] \<and>
   deserialize_list (PFloat f) = PList [] \<and>
   deserialize_list (PDict kvs) = PList []"
  by (simp add: Let_def str_list_def)

theorem deserialize_list_cases_witness:
  "deserialize_list (PStr (ascii ''   '')) = PList [] \<and>
   deserialize_list (PStr (ascii ''calm'')) = PList [] \<and>
   deserialize_list (PStr (ascii '' [1] '')) = PList [PInt 1]"
proof -
  have 1: "strip (ascii ''   '') = []"
    by (simp add: ascii_def strip_def py_isspace_def)
  have 2: "json_loads (strip (ascii ''calm'')) = None"
    by (simp add: ascii_def strip_def py_isspace_def loads_defs)
  have 3: "strip (ascii '' [1] '') \<noteq> [] \<and>
      json_loads (strip (ascii '' [1] '')) = Some (PList [PInt 1])"
    by (simp add: ascii_def strip_def py_isspace_def loads_defs JSONArray_loop.simps)
  show ?thesis
    using deserialize_list_cases [where data = "ascii ''   ''"] 1
      deserialize_list_cases [where data = "ascii ''calm''"] 2
      deserialize_list_cases [where data = "ascii '' [1] ''" and ys = "[PInt 1]"] 3
    by blast
qed

text \<open>
  The value decoded from a text is returned unchecked: the text \<open>5\<close> decodes, to a
  number, and \<open>deserialize_list\<close> returns that number, which is not a list.
\<close>

lemma deserialize_number_text:
  "deserialize_list (PStr (ascii ''5'')) = PInt 5 \<and> \<not> is_str_list (PInt 5)"
  by (simp add: ascii_def strip_def py_isspace_def loads_defs is_str_list_def)

text \<open>
  Claim C4, at the text \<open>5\<close>: normalising the result of \<open>deserialize_list\<close> once more
  gives the empty list, which is not what the first call returned.
\<close>

theorem deserialize_twice_number_text:
  "deserialize_list (deserialize_list (PStr (ascii ''5''))) = PList [] \<and>
   deserialize_list (PStr (ascii ''5'')) \<noteq> PList []"
  by (simp add: ascii_def strip_def py_isspace_def loads_defs)

text \<open>The scorer then raises on such a designer row.\<close>

lemma score_number_text:
  "calculate_match_score campaign1 (designer1\<lparr>scene_tags := PStr (ascii ''5'')\<rparr>) = Inl TypeError"
  by (simp add: calculate_match_score_def wanted_in_def points_defs scenario_defs
      strip_def py_isspace_def loads_defs)


section \<open>Properties of the selector\<close>

text \<open>
  The entry a designer row contributes to the result, if any: the loop of
  \<open>match_designers\<close> collects exactly these, in the order of the rows.
\<close>

definition scored_row :: "campaign \<Rightarrow> real \<Rightarrow> designer \<Rightarrow> scored_designer option" where
  "scored_row c t d =
     (case calculate_match_score c (normalize_row d) of
        Inl e \<Rightarrow> None
      | Inr s \<Rightarrow>
          if t \<le> s then Some \<lparr>sd_designer = designer_out (normalize_row d), sd_score = s\<rparr>
          else None)"





lemma score_designers_rows:
  "score_designers c t ds acc = Inr pre \<Longrightarrow> pre = acc @ List.map_filter (scored_row c t) ds"
proof (induction ds arbitrary: acc)
  case Nil
  then show ?case by (simp add: map_filter_simps)
next
  case (Cons d ds)
  from Cons.prems obtain s where s: "calculate_match_score c (normalize_row d) = Inr s"
    by (auto simp: Let_def split: sum.splits)
  show ?case
  proof (cases "t \<le> s")
    case True
    let ?sd = "\<lparr>sd_designer = designer_out (normalize_row d), sd_score = s\<rparr>"
    from True s Cons.prems have "score_designers c t ds (acc @ [?sd]) = Inr pre"
      by (simp add: Let_def)
    then have "pre = (acc @ [?sd]) @ List.map_filter (scored_row c t) ds"
      by (rule Cons.IH)
    moreover from True s have "scored_row c t d = Some ?sd"
      by (simp add: scored_row_def)
    ultimately show ?thesis by (simp add: map_filter_simps)
  next
    case False
    with s Cons.prems have "score_designers c t ds acc = Inr pre"
      by (simp add: Let_def)
    then have "pre = acc @ List.map_filter (scored_row c t) ds"
      by (rule Cons.IH)
    moreover from False s have "scored_row c t d = None"
      by (simp add: scored_row_def)
    ultimately show ?thesis by (simp add: map_filter_simps)
  qed
qed



lemma set_map_filter: "set (List.map_filter f xs) = {y. \<exists>x\<in>set xs. f x = Some y}"
  by (induction xs) (auto simp: map_filter_simps split: option.splits)

lemma scored_row_Some:
  "scored_row c t d = Some sd \<longleftrightarrow>
     (\<exists>s. calculate_match_score c (normalize_row d) = Inr s \<and> t \<le> s \<and>
          sd = \<lparr>sd_designer = designer_out (normalize_row d), sd_score = s\<rparr>)"
  by (auto simp: scored_row_def split: sum.splits)

lemma scored_row_id: "scored_row c t d = Some sd \<Longrightarrow> designer_id (sd_designer sd) = designer_id d"
  by (auto simp: scored_row_def designer_out_def normalize_row_def split: sum.splits if_splits)

lemma subseq_scored_rows:
  "subseq (map (\<lambda>sd. designer_id (sd_designer sd)) (List.map_filter (scored_row c t) ds))
     (map designer_id ds)"
proof (induction ds)
  case Nil
  then show ?case by (simp add: map_filter_simps)
next
  case (Cons d ds)
  show ?case
  proof (cases "scored_row c t d")
    case None
    with Cons show ?thesis by (simp add: map_filter_simps list_emb_Cons)
  next
    case (Some sd)
    with Cons scored_row_id [OF Some] show ?thesis by (simp add: map_filter_simps)
  qed
qed


lemma match_designers_found:
  "fetch_campaign db (mr_campaign_id req) = Some c \<Longrightarrow>
   match_designers db req =
     (case score_designers c (threshold req) (designers db) [] of
        Inl e \<Rightarrow> Inl e
      | Inr pre \<Rightarrow> Inr (sort_key (\<lambda>sd. - sd_score sd) pre))"
  by (simp add: match_designers_def)




text \<open>
  Claim C7. When \<open>match_designers\<close> returns, a designer row with score \<open>s\<close> is in the
  result exactly when \<open>threshold \<le> s\<close>, so a row scoring exactly the threshold is in it;
  and every entry of the result is such a row.
\<close>

theorem threshold_inclusive:
  assumes "fetch_campaign db (mr_campaign_id req) = Some c"
    and "match_designers db req = Inr rs"
  shows "(\<forall>d\<in>set (designers db). \<forall>s. calculate_match_score c (normalize_row d) = Inr s \<longrightarrow>
            (\<lparr>sd_designer = designer_out (normalize_row d), sd_score = s\<rparr> \<in> set rs
               \<longleftrightarrow> threshold req \<le> s)) \<and>
         (\<forall>sd\<in>set rs. \<exists>d\<in>set (designers db).
            sd_designer sd = designer_out (normalize_row d) \<and>
            calculate_match_score c (normalize_row d) = Inr (sd_score sd) \<and>
            threshold req \<le> sd_score sd)"
proof -
  from assms obtain pre where pre: "score_designers c (threshold req) (designers db) [] = Inr pre"
    and rs: "rs = sort_key (\<lambda>sd. - sd_score sd) pre"
    by (auto simp: match_designers_found split: sum.splits)
  have set_rs: "set rs = {y. \<exists>d\<in>set (designers db). scored_row c (threshold req) d = Some y}"
    using score_designers_rows [OF pre] rs by (simp add: set_map_filter)
  have "\<lparr>sd_designer = designer_out (normalize_row d), sd_score = s\<rparr> \<in> set rs
          \<longleftrightarrow> threshold req \<le> s"
    if d: "d \<in> set (designers db)" and s: "calculate_match_score c (normalize_row d) = Inr s"
    for d s
  proof
    assume "\<lparr>sd_designer = designer_out (normalize_row d), sd_score = s\<rparr> \<in> set rs"
    then obtain d' where "scored_row c (threshold req) d' =
        Some \<lparr>sd_designer = designer_out (normalize_row d), sd_score = s\<rparr>"
      unfolding set_rs by blast
    then show "threshold req \<le> s"
      by (auto simp: scored_row_Some)
  next
    assume "threshold req \<le> s"
    with s have "scored_row c (threshold req) d =
        Some \<lparr>sd_designer = designer_out (normalize_row d), sd_score = s\<rparr>"
      by (simp add: scored_row_Some)
    with d show "\<lparr>sd_designer = designer_out (normalize_row d), sd_score = s\<rparr> \<in> set rs"
      unfolding set_rs by blast
  qed
  moreover have "\<exists>d\<in>set (designers db).
      sd_designer sd = designer_out (normalize_row d) \<and>
      calculate_match_score c (normalize_row d) = Inr (sd_score sd) \<and>
      threshold req \<le> sd_score sd"
    if "sd \<in> set rs" for sd
  proof -
    from that obtain d where "d \<in> set (designers db)" "scored_row c (threshold req) d = Some sd"
      unfolding set_rs by blast
    then show ?thesis
      by (auto simp: scored_row_Some)
  qed
  ultimately show ?thesis by blast
qed


lemma scenario_rows:
  "calculate_match_score campaign1 (normalize_row (designer1\<lparr>designer_id := 1, rate_tier := Some 600\<rparr>)) = Inr 79"
  "calculate_match_score campaign1 (normalize_row (designer1\<lparr>designer_id := 2\<rparr>)) = Inr 99"
  "calculate_match_score campaign1 (normalize_row (designer1\<lparr>designer_id := 3, rate_tier := Some 450\<rparr>)) = Inr 99"
  by (simp_all add: calculate_match_score_def wanted_in_def points_defs scenario_defs normalize_row_def)

lemma fetch_campaign1: "fetch_campaign database1 1 = Some campaign1"
  by (simp add: fetch_campaign_def database1_def campaign1_def)

lemma match_database1:
  "match_designers database1 \<lparr>mr_campaign_id = 1, threshold = 99\<rparr> =
     Inr [\<lparr>sd_designer = designer_out (normalize_row (designer1\<lparr>designer_id := 2\<rparr>)), sd_score = 99\<rparr>,
          \<lparr>sd_designer = designer_out (normalize_row (designer1\<lparr>designer_id := 3, rate_tier := Some 450\<rparr>)),
             sd_score = 99\<rparr>]"
  by (simp add: match_designers_def fetch_campaign1 scenario_rows) (simp add: database1_def scenario_rows)

theorem threshold_inclusive_witness:
  "\<exists>rs. match_designers database1 \<lparr>mr_campaign_id = 1, threshold = 99\<rparr> = Inr rs \<and>
     \<lparr>sd_designer = designer_out (normalize_row (designer1\<lparr>designer_id := 2\<rparr>)), sd_score = 99\<rparr> \<in> set rs \<and>
     \<lparr>sd_designer = designer_out (normalize_row (designer1\<lparr>designer_id := 1, rate_tier := Some 600\<rparr>)),
        sd_score = 79\<rparr> \<notin> set rs"
proof -
  let ?req = "\<lparr>mr_campaign_id = 1, threshold = 99\<rparr>"
  obtain rs where rs: "match_designers database1 ?req = Inr rs"
    using match_database1 by blast
  have f: "fetch_campaign database1 (mr_campaign_id ?req) = Some campaign1"
    by (simp add: fetch_campaign1)
  have d: "designer1\<lparr>designer_id := 2\<rparr> \<in> set (designers database1)"
    "designer1\<lparr>designer_id := 1, rate_tier := Some 600\<rparr> \<in> set (designers database1)"
    by (simp_all add: database1_def)
  from threshold_inclusive [OF f rs] d scenario_rows
  have "\<lparr>sd_designer = designer_out (normalize_row (designer1\<lparr>designer_id := 2\<rparr>)), sd_score = 99\<rparr> \<in> set rs"
    and "\<lparr>sd_designer = designer_out (normalize_row (designer1\<lparr>designer_id := 1, rate_tier := Some 600\<rparr>)),
        sd_score = 79\<rparr> \<notin> set rs"
    by fastforce+
  with rs show ?thesis by blast
qed

text \<open>
  Claim C8. The result of \<open>match_designers\<close> is ordered by score, highest first, and the
  entries with one score are in the order in which the loop collected them, which is the
  order of the designer rows.
\<close>

theorem sorted_descending_stable:
  assumes "fetch_campaign db (mr_campaign_id req) = Some c"
    and "match_designers db req = Inr rs"
  shows "sorted_wrt (\<lambda>a b. sd_score a \<ge> sd_score b) rs \<and>
         (\<exists>pre. score_designers c (threshold req) (designers db) [] = Inr pre \<and>
            subseq (map (\<lambda>sd. designer_id (sd_designer sd)) pre) (map designer_id (designers db)) \<and>
            (\<forall>k. filter (\<lambda>sd. sd_score sd = k) rs = filter (\<lambda>sd. sd_score sd = k) pre))"
proof -
  from assms obtain pre where pre: "score_designers c (threshold req) (designers db) [] = Inr pre"
    and rs: "rs = sort_key (\<lambda>sd. - sd_score sd) pre"
    by (auto simp: match_designers_found split: sum.splits)
  have "sorted (map (\<lambda>sd. - sd_score sd) rs)"
    unfolding rs by (rule sorted_sort_key)
  then have 1: "sorted_wrt (\<lambda>a b. sd_score a \<ge> sd_score b) rs"
    by (simp add: sorted_map)
  have 2: "subseq (map (\<lambda>sd. designer_id (sd_designer sd)) pre) (map designer_id (designers db))"
    using score_designers_rows [OF pre] subseq_scored_rows [of c "threshold req" "designers db"]
    by simp
  have 3: "filter (\<lambda>sd. sd_score sd = k) rs = filter (\<lambda>sd. sd_score sd = k) pre" for k
    using sort_key_stable [of "\<lambda>sd. - sd_score sd" "- k" pre] by (simp add: rs)
  from 1 2 3 pre show ?thesis by blast
qed

theorem sorted_descending_stable_witness:
  "match_designers database1 \<lparr>mr_campaign_id = 1, threshold = 60\<rparr> =
     Inr [\<lparr>sd_designer = designer_out (normalize_row (designer1\<lparr>designer_id := 2\<rparr>)), sd_score = 99\<rparr>,
          \<lparr>sd_designer = designer_out (normalize_row (designer1\<lparr>designer_id := 3, rate_tier := Some 450\<rparr>)),
             sd_score = 99\<rparr>,
          \<lparr>sd_designer = designer_out (normalize_row (designer1\<lparr>designer_id := 1, rate_tier := Some 600\<rparr>)),
             sd_score = 79\<rparr>] \<and>
   sorted_wrt (\<lambda>a b. sd_score a \<ge> sd_score b)
       [\<lparr>sd_designer = designer_out (normalize_row (designer1\<lparr>designer_id := 2\<rparr>)), sd_score = 99\<rparr>,
        \<lparr>sd_designer = designer_out (normalize_row (designer1\<lparr>designer_id := 3, rate_tier := Some 450\<rparr>)),
           sd_score = 99\<rparr>,
        \<lparr>sd_designer = designer_out (normalize_row (designer1\<lparr>designer_id := 1, rate_tier := Some 600\<rparr>)),
           sd_score = 79\<rparr>]"
proof -
  let ?req = "\<lparr>mr_campaign_id = 1, threshold = 60\<rparr>"
  let ?a = "\<lparr>sd_designer = designer_out (normalize_row (designer1\<lparr>designer_id := 1, rate_tier := Some 600\<rparr>)),
             sd_score = 79\<rparr>"
  let ?b = "\<lparr>sd_designer = designer_out (normalize_row (designer1\<lparr>designer_id := 2\<rparr>)), sd_score = 99\<rparr>"
  let ?c = "\<lparr>sd_designer = designer_out (normalize_row (designer1\<lparr>designer_id := 3, rate_tier := Some 450\<rparr>)),
             sd_score = 99\<rparr>"
  have pre: "score_designers campaign1 (threshold ?req) (designers database1) [] = Inr [?a, ?b, ?c]"
    by (simp add: database1_def scenario_rows)
  have m: "match_designers database1 ?req = Inr [?b, ?c, ?a]"
    using pre by (simp add: match_designers_def fetch_campaign1)
  have f: "fetch_campaign database1 (mr_campaign_id ?req) = Some campaign1"
    by (simp add: fetch_campaign1)
  from sorted_descending_stable [OF f m] pre
  have "sorted_wrt (\<lambda>a b. sd_score a \<ge> sd_score b) [?b, ?c, ?a]"
    and "filter (\<lambda>sd. sd_score sd = 99) [?b, ?c, ?a] = filter (\<lambda>sd. sd_score sd = 99) [?a, ?b, ?c]"
    by auto
  with m show ?thesis by simp
qed


section \<open>Round trip through the serialized representation\<close>

lemma hexval_hexdigit: "d < 16 \<Longrightarrow> hexval (hexdigit d) = Some d"
  by (auto simp: hexval_def hexdigit_def)

lemma hex4_value:
  fixes n :: nat
  assumes "n < 65536"
  shows "((n div 4096 mod 16 * 16 + n div 256 mod 16) * 16 + n div 16 mod 16) * 16 + n mod 16 = n"
proof -
  define d0 where "d0 = n mod 16"
  define q1 where "q1 = n div 16"
  define d1 where "d1 = q1 mod 16"
  define q2 where "q2 = q1 div 16"
  define d2 where "d2 = q2 mod 16"
  define q3 where "q3 = q2 div 16"
  have n: "n = 16 * q1 + d0" by (simp add: q1_def d0_def)
  have q1: "q1 = 16 * q2 + d1" by (simp add: q2_def d1_def)
  have q2: "q2 = 16 * q3 + d2" by (simp add: q3_def d2_def)
  have "q3 < 16" using assms n q1 q2 by linarith
  then have q3: "q3 mod 16 = q3" by simp
  have "n div 256 = n div (16 * 16)" by simp
  also have "\<dots> = q2" by (simp only: div_mult2_eq q1_def q2_def)
  finally have a: "n div 256 = q2" .
  have "n div 4096 = n div (16 * 16 * 16)" by simp
  also have "\<dots> = q3" by (simp only: div_mult2_eq q1_def q2_def q3_def)
  finally have b: "n div 4096 = q3" .
  have "n = 16 * (16 * (16 * q3 + d2) + d1) + d0"
    using n q1 q2 by simp
  then have "((q3 * 16 + d2) * 16 + d1) * 16 + d0 = n"
    by (simp add: algebra_simps)
  then show ?thesis
    by (simp only: a b q3 d0_def [symmetric] d1_def [symmetric] d2_def [symmetric] q1_def [symmetric])
qed

lemma decode_hex4:
  assumes "n < 65536"
  shows "decode_uXXXX (hex4 n @ t) = Some n"
proof -
  have "decode_uXXXX (hex4 n @ t) =
      Some (((n div 4096 mod 16 * 16 + n div 256 mod 16) * 16 + n div 16 mod 16) * 16 + n mod 16)"
    by (simp add: hex4_def hexval_hexdigit)
  then show ?thesis
    by (simp only: hex4_value [OF assms])
qed

lemma length_hex4: "length (hex4 n) = 4"
  by (simp add: hex4_def)


text \<open>
  \<open>no_low_escape t\<close>: the text \<open>t\<close> does not start with the \<open>\u\<close> escape of a low
  surrogate, nor with a malformed \<open>\u\<close> escape.
\<close>

definition no_low_escape :: "pystr \<Rightarrow> bool" where
  "no_low_escape t =
     (take 2 t = [0x5C, 0x75] \<longrightarrow> (\<exists>u. decode_uXXXX (drop 2 t) = Some u \<and> \<not> is_low u))"

lemma scanstring_u_escape:
  assumes "n < 65536" and "is_high n \<Longrightarrow> no_low_escape t"
  shows "scanstring (0x5C # 0x75 # hex4 n @ t) = push_char n (scanstring t)"
proof (cases "is_high n \<and> take 2 t = [0x5C, 0x75]")
  case False
  then show ?thesis
    using assms(1) by (auto simp: decode_hex4 length_hex4 is_high_def)
next
  case True
  with assms(2) obtain u where u: "decode_uXXXX (drop 2 t) = Some u" "\<not> is_low u"
    by (auto simp: no_low_escape_def)
  from True obtain t' where t: "t = 0x5C # 0x75 # t'"
    by (cases t; cases "tl t") auto
  from u True assms(1) show ?thesis
    unfolding t by (auto simp: decode_hex4 length_hex4 is_high_def is_low_def)
qed

lemma scanstring_pair_escape:
  assumes "is_high h" and "is_low l"
  shows "scanstring (0x5C # 0x75 # hex4 h @ 0x5C # 0x75 # hex4 l @ t) =
         push_char (0x10000 + ((h - 0xD800) * 1024 + (l - 0xDC00))) (scanstring t)"
proof -
  from assms have "h < 65536" "l < 65536"
    by (simp_all add: is_high_def is_low_def)
  with assms show ?thesis
    by (simp add: decode_hex4 length_hex4 is_high_def is_low_def)
qed

lemma surrogates_of:
  fixes n :: nat
  assumes "n < 0x100000"
  shows "is_high (0xD800 + n div 1024 mod 1024)" and "is_low (0xDC00 + n mod 1024)"
    and "(0xD800 + n div 1024 mod 1024 - 0xD800) * 1024 + (0xDC00 + n mod 1024 - 0xDC00) = n"
proof -
  have "n div 1024 < 1024" using assms by simp
  then have m: "n div 1024 mod 1024 = n div 1024" by simp
  have "n div 1024 mod 1024 < 1024" by simp
  then show "is_high (0xD800 + n div 1024 mod 1024)"
    by (simp add: is_high_def)
  have "n mod 1024 < 1024" by simp
  then show "is_low (0xDC00 + n mod 1024)"
    by (simp add: is_low_def)
  show "(0xD800 + n div 1024 mod 1024 - 0xD800) * 1024 + (0xDC00 + n mod 1024 - 0xDC00) = n"
    by (simp add: m)
qed

lemma scanstring_escape_char:
  assumes "c < 0x110000" and "is_high c \<Longrightarrow> no_low_escape t"
  shows "scanstring (escape_char c @ t) = push_char c (scanstring t)"
proof -
  consider (short) "c = 0x5C \<or> c = 0x22 \<or> c = 0x08 \<or> c = 0x0C \<or> c = 0x0A \<or> c = 0x0D \<or> c = 0x09"
    | (plain) "c \<noteq> 0x5C" "c \<noteq> 0x22" "0x20 \<le> c" "c \<le> 0x7E"
    | (u) "c \<noteq> 0x08" "c \<noteq> 0x0C" "c \<noteq> 0x0A" "c \<noteq> 0x0D" "c \<noteq> 0x09"
          "c < 0x20 \<or> 0x7E < c" "c < 0x10000"
    | (pair) "0x10000 \<le> c"
    by linarith
  then show ?thesis
  proof cases
    case short
    then show ?thesis
      by (auto simp: escape_char_def BACKSLASH_def)
  next
    case plain
    then show ?thesis
      by (auto simp: escape_char_def)
  next
    case u
    then have "escape_char c = [0x5C, 0x75] @ hex4 c"
      by (auto simp: escape_char_def)
    with u assms(2) show ?thesis
      by (simp add: scanstring_u_escape del: scanstring.simps)
  next
    case pair
    define n where "n = c - 0x10000"
    from pair assms(1) have n: "n < 0x100000" and c: "c = 0x10000 + n"
      by (simp_all add: n_def)
    from pair have "escape_char c =
        [0x5C, 0x75] @ hex4 (0xD800 + n div 1024 mod 1024) @ [0x5C, 0x75] @ hex4 (0xDC00 + n mod 1024)"
      by (simp add: escape_char_def n_def Let_def)
    then show ?thesis
      using surrogates_of [OF n]
      by (simp only: append_Cons append_Nil append_assoc scanstring_pair_escape c)
  qed
qed


lemma no_low_escape_quote: "no_low_escape (0x22 # t)"
  by (simp add: no_low_escape_def)

lemma no_low_escape_escape_char:
  assumes "c < 0x110000" and "\<not> is_low c"
  shows "no_low_escape (escape_char c @ t)"
proof -
  consider (short) "c = 0x5C \<or> c = 0x22 \<or> c = 0x08 \<or> c = 0x0C \<or> c = 0x0A \<or> c = 0x0D \<or> c = 0x09"
    | (plain) "c \<noteq> 0x5C" "c \<noteq> 0x22" "0x20 \<le> c" "c \<le> 0x7E"
    | (u) "c \<noteq> 0x08" "c \<noteq> 0x0C" "c \<noteq> 0x0A" "c \<noteq> 0x0D" "c \<noteq> 0x09"
          "c < 0x20 \<or> 0x7E < c" "c < 0x10000"
    | (pair) "0x10000 \<le> c"
    by linarith
  then show ?thesis
  proof cases
    case short
    then show ?thesis
      by (elim disjE) (simp_all add: escape_char_def no_low_escape_def)
  next
    case plain
    then show ?thesis
      by (auto simp: escape_char_def no_low_escape_def)
  next
    case u
    then have "escape_char c = [0x5C, 0x75] @ hex4 c"
      by (auto simp: escape_char_def)
    with u assms(2) show ?thesis
      by (simp add: no_low_escape_def decode_hex4)
  next
    case pair
    define n where "n = c - 0x10000"
    from pair assms(1) have n: "n < 0x100000"
      by (simp add: n_def)
    from pair have e: "escape_char c =
        [0x5C, 0x75] @ hex4 (0xD800 + n div 1024 mod 1024) @ [0x5C, 0x75] @ hex4 (0xDC00 + n mod 1024)"
      by (simp add: escape_char_def n_def Let_def)
    from surrogates_of(1) [OF n]
    have h: "0xD800 + n div 1024 mod 1024 < 65536" "\<not> is_low (0xD800 + n div 1024 mod 1024)"
      by (simp_all add: is_high_def is_low_def)
    show ?thesis
      unfolding e no_low_escape_def using h
      by (simp add: decode_hex4)
  qed
qed

lemma no_surrogate_pair_tl: "no_surrogate_pair (a # s) \<Longrightarrow> no_surrogate_pair s"
  by (cases s) simp_all

lemma scanstring_escaped:
  "valid_str s \<Longrightarrow> no_surrogate_pair s \<Longrightarrow>
   scanstring (concat (map escape_char s) @ 0x22 # t) = Some (s, t)"
proof (induction s)
  case Nil
  then show ?case by simp
next
  case (Cons a s)
  from Cons.prems have a: "a < 0x110000" and rest: "valid_str s" "no_surrogate_pair s"
    by (auto simp: valid_str_def dest: no_surrogate_pair_tl)
  have "no_low_escape (concat (map escape_char s) @ 0x22 # t)" if "is_high a"
  proof (cases s)
    case Nil
    then show ?thesis by (simp add: no_low_escape_quote)
  next
    case (Cons b s')
    with Cons.prems that have "b < 0x110000" "\<not> is_low b"
      by (auto simp: valid_str_def)
    then show ?thesis
      using no_low_escape_escape_char [of b] Cons by simp
  qed
  then have "scanstring (escape_char a @ concat (map escape_char s) @ 0x22 # t) =
      push_char a (scanstring (concat (map escape_char s) @ 0x22 # t))"
    using a by (rule scanstring_escape_char [rotated])
  also have "\<dots> = Some (a # s, t)"
    using Cons.IH [OF rest] by (simp add: push_char_def)
  finally show ?case by simp
qed

lemma strip_unchanged:
  assumes "s \<noteq> []" and "\<not> py_isspace (hd s)" and "\<not> py_isspace (last s)"
  shows "strip s = s"
proof -
  from assms(1,2) have 1: "dropWhile py_isspace s = s"
    by (cases s) simp_all
  from assms(1,3) have 2: "dropWhile py_isspace (rev s) = rev s"
    by (cases "rev s") (simp_all add: last_rev [symmetric] del: last_rev)
  show ?thesis
    by (simp add: strip_def 1 2)
qed

lemma encode_head: "encode_basestring_ascii x = 0x22 # concat (map escape_char x) @ [0x22]"
  by (simp add: encode_basestring_ascii_def)

lemma join_items_head: "\<exists>w. join_items (map encode_basestring_ascii (y # ys)) = 0x22 # w"
  by (cases ys) (simp_all add: encode_head)

lemma scan_once_encoded:
  assumes "valid_str x" and "no_surrogate_pair x"
  shows "scan_once (encode_basestring_ascii x @ t) = Some (PStr x, t)"
  using scanstring_escaped [OF assms, of t] by (simp add: encode_head)

lemma length_encoded: "length t < length (encode_basestring_ascii x @ t)"
  by (simp add: encode_head)

lemma encode_nonempty: "encode_basestring_ascii x \<noteq> []"
  by (simp add: encode_head)

lemma JSONArray_loop_items:
  assumes "\<forall>y\<in>set (x # xs). valid_str y \<and> no_surrogate_pair y"
  shows "JSONArray_loop vals (join_items (map encode_basestring_ascii (x # xs)) @ 0x5D # t) =
         Some (PList (vals @ map PStr (x # xs)), t)"
  using assms
proof (induction xs arbitrary: x vals)
  case Nil
  then have x: "valid_str x" "no_surrogate_pair x" by simp_all
  show ?case
    by (subst JSONArray_loop.simps)
      (simp add: scan_once_encoded [OF x] encode_nonempty skip_ws_def json_ws_def)
next
  case (Cons y ys)
  then have x: "valid_str x" "no_surrogate_pair x"
    and rest: "\<forall>z\<in>set (y # ys). valid_str z \<and> no_surrogate_pair z"
    by simp_all
  obtain w where w: "join_items (encode_basestring_ascii y # map encode_basestring_ascii ys) = 0x22 # w"
    using join_items_head [of y ys] by auto
  let ?t = "join_items (encode_basestring_ascii y # map encode_basestring_ascii ys) @ 0x5D # t"
  have s: "join_items (map encode_basestring_ascii (x # y # ys)) @ 0x5D # t =
      encode_basestring_ascii x @ 0x2C # 0x20 # ?t"
    by (simp add: encode_nonempty)
  have ws: "skip_ws (0x20 # ?t) = ?t"
    by (simp add: w skip_ws_def json_ws_def)
  have "JSONArray_loop vals (encode_basestring_ascii x @ 0x2C # 0x20 # ?t) =
      JSONArray_loop (vals @ [PStr x]) ?t"
    by (subst JSONArray_loop.simps)
      (simp add: scan_once_encoded [OF x] length_encoded encode_nonempty ws
        skip_ws_def [of "_ # _ # _"] json_ws_def del: join_items.simps)
  also have "\<dots> = Some (PList ((vals @ [PStr x]) @ map PStr (y # ys)), t)"
    using Cons.IH [OF rest, of "vals @ [PStr x]"] by simp
  finally show ?case
    unfolding s by simp
qed

lemma json_loads_dumps:
  assumes "\<forall>y\<in>set xs. valid_str y \<and> no_surrogate_pair y"
  shows "json_loads (json_dumps xs) = Some (str_list xs)"
proof (cases xs)
  case Nil
  then show ?thesis
    by (simp add: json_loads_def json_dumps_def str_list_def skip_ws_def json_ws_def)
next
  case (Cons x xs')
  let ?items = "join_items (map encode_basestring_ascii xs)"
  obtain w where w: "?items = 0x22 # w"
    using join_items_head [of x xs'] Cons by auto
  have "JSONArray_loop [] (?items @ 0x5D # []) = Some (PList ([] @ map PStr xs), [])"
    using assms unfolding Cons by (rule JSONArray_loop_items)
  then have "scan_once (0x5B # ?items @ [0x5D]) = Some (PList (map PStr xs), [])"
    by (simp add: w skip_ws_def json_ws_def)
  then show ?thesis
    by (simp add: json_loads_def json_dumps_def str_list_def skip_ws_def json_ws_def
        del: scan_once.simps)
qed

lemma strip_json_dumps: "strip (json_dumps xs) = json_dumps xs"
  by (rule strip_unchanged) (simp_all add: json_dumps_def py_isspace_def)

lemma deserialize_serialized:
  assumes "\<forall>y\<in>set xs. valid_str y \<and> no_surrogate_pair y"
  shows "deserialize_list (PStr (serialize_list (Some xs))) = str_list xs"
proof -
  have "json_dumps xs \<noteq> []"
    by (simp add: json_dumps_def)
  then show ?thesis
    by (simp add: serialize_list_def strip_json_dumps json_loads_dumps [OF assms])
qed


lemmas dumps_defs = serialize_list_def json_dumps_def encode_basestring_ascii_def escape_char_def
  hex4_def hexdigit_def

lemma surrogate_pair_text:
  "serialize_list (Some [[0xD83D, 0xDE00]]) =
     [0x5B, 0x22, 0x5C, 0x75, 0x64, 0x38, 0x33, 0x64, 0x5C, 0x75, 0x64, 0x65, 0x30, 0x30, 0x22, 0x5D]"
  by (simp add: dumps_defs)

text \<open>
  Claim C5 does not hold for every list of strings. A \<open>str\<close> may hold a high surrogate
  followed by a low surrogate as two code points; \<open>json.dumps\<close> writes two \<open>\u\<close> escapes
  and \<open>json.loads\<close> reads them back as one code point. The tag \<open>[0xD83D, 0xDE00]\<close> comes
  back as \<open>[0x1F600]\<close>, and a campaign asking for that tag scores 99 against the native
  list and 79 against its serialized form.
\<close>

theorem surrogate_round_trip_counterexample:
  "deserialize_list (PStr (serialize_list (Some [[0xD83D, 0xDE00]]))) = str_list [[0x1F600]] \<and>
   calculate_match_score (campaign1\<lparr>ambiance := Some [0xD83D, 0xDE00]\<rparr>)
     (designer1\<lparr>scene_tags := str_list [[0xD83D, 0xDE00]]\<rparr>) = Inr 99 \<and>
   calculate_match_score (campaign1\<lparr>ambiance := Some [0xD83D, 0xDE00]\<rparr>)
     (designer1\<lparr>scene_tags := PStr (serialize_list (Some [[0xD83D, 0xDE00]]))\<rparr>) = Inr 79"
proof -
  have 1: "deserialize_list (PStr (serialize_list (Some [[0xD83D, 0xDE00]]))) = str_list [[0x1F600]]"
    by (simp add: surrogate_pair_text strip_def py_isspace_def json_loads_def skip_ws_def
        json_ws_def JSONArray_loop.simps hexval_def push_char_def str_list_def)
  have 2: "calculate_match_score (campaign1\<lparr>ambiance := Some [0xD83D, 0xDE00]\<rparr>)
     (designer1\<lparr>scene_tags := str_list [[0xD83D, 0xDE00]]\<rparr>) = Inr 99"
    by (simp add: calculate_match_score_def wanted_in_def points_defs scenario_defs)
  have 3: "calculate_match_score (campaign1\<lparr>ambiance := Some [0xD83D, 0xDE00]\<rparr>)
     (designer1\<lparr>scene_tags := PStr (serialize_list (Some [[0xD83D, 0xDE00]]))\<rparr>) = Inr 79"
    by (simp add: calculate_match_score_def 1 wanted_in_def points_defs scenario_defs
        del: deserialize_list.simps(3))
  from 1 2 3 show ?thesis by simp
qed

text \<open>
  Claim C5, amended. For a designer whose three list fields are lists of strings in which
  no high surrogate is directly followed by a low surrogate, replacing the three fields by
  their \<open>serialize_list\<close> texts changes neither what \<open>deserialize_list\<close> returns for
  them nor the result of the scorer against any campaign.
\<close>

theorem serialized_round_trip:
  assumes "\<forall>y\<in>set ts. valid_str y \<and> no_surrogate_pair y"
    and "\<forall>y\<in>set fs. valid_str y \<and> no_surrogate_pair y"
    and "\<forall>y\<in>set ms. valid_str y \<and> no_surrogate_pair y"
    and "scene_tags d = str_list ts"
    and "export_formats d = str_list fs"
    and "visual_metadata d = str_list ms"
    and "d' = d\<lparr>scene_tags := PStr (serialize_list (Some ts)),
                  export_formats := PStr (serialize_list (Some fs)),
                  visual_metadata := PStr (serialize_list (Some ms))\<rparr>"
  shows "deserialize_list (scene_tags d') = deserialize_list (scene_tags d) \<and>
         deserialize_list (export_formats d') = deserialize_list (export_formats d) \<and>
         deserialize_list (visual_metadata d') = deserialize_list (visual_metadata d) \<and>
         calculate_match_score c d' = calculate_match_score c d"
proof -
  have t: "deserialize_list (scene_tags d') = deserialize_list (scene_tags d)"
    using deserialize_serialized [OF assms(1)] assms(4,7) by (simp add: str_list_def)
  have f: "deserialize_list (export_formats d') = deserialize_list (export_formats d)"
    using deserialize_serialized [OF assms(2)] assms(5,7) by (simp add: str_list_def)
  have m: "deserialize_list (visual_metadata d') = deserialize_list (visual_metadata d)"
    using deserialize_serialized [OF assms(3)] assms(6,7) by (simp add: str_list_def)
  have p: "budget_points c d' = budget_points c d" "interactivity_points c d' = interactivity_points c d"
    "timeline_points c d' = timeline_points c d" "performance_points d' = performance_points d"
    by (simp_all add: assms(7) points_defs)
  have "calculate_match_score c d' = calculate_match_score c d"
    by (simp only: calculate_match_score_def t f m p)
  with t f m show ?thesis by simp
qed

theorem serialized_round_trip_witness:
  "calculate_match_score campaign1
     (designer1\<lparr>scene_tags := PStr (serialize_list (Some [ascii ''calm'', ascii ''vibrant''])),
        export_formats := PStr (serialize_list (Some [ascii ''Quest'', ascii ''WebXR''])),
        visual_metadata := PStr (serialize_list (Some [ascii ''minimalist'']))\<rparr>) = Inr 99"
proof -
  have v: "\<forall>y\<in>set [ascii ''calm'', ascii ''vibrant'']. valid_str y \<and> no_surrogate_pair y"
    "\<forall>y\<in>set [ascii ''Quest'', ascii ''WebXR'']. valid_str y \<and> no_surrogate_pair y"
    "\<forall>y\<in>set [ascii ''minimalist'']. valid_str y \<and> no_surrogate_pair y"
    by (simp_all add: ascii_def valid_str_def is_high_def)
  have d: "scene_tags designer1 = str_list [ascii ''calm'', ascii ''vibrant'']"
    "export_formats designer1 = str_list [ascii ''Quest'', ascii ''WebXR'']"
    "visual_metadata designer1 = str_list [ascii ''minimalist'']"
    by (simp_all add: designer1_def)
  have s: "calculate_match_score campaign1 designer1 = Inr 99"
    by (simp add: calculate_match_score_def wanted_in_def points_defs scenario_defs)
  from serialized_round_trip [OF v d refl, of campaign1] s show ?thesis by simp
qed


end
